theory Spec2Isabelle
  imports Complex_Main "HOL-Library.Char_ord" "HOL-Library.List_Lexorder"
    "HOL-Library.Product_Lexorder" "HOL-Library.Multiset"
begin

section \<open>Tables\<close>

text \<open>
  The dashboard (\<^verbatim>\<open>app.py\<close>) works on pandas tables. A table is a list of column
  labels and a list of rows, each row one cell per label. Labels are strings, as the
  sheet's header row gives them.

  A cell is what a sheet or a derived column can hold: a string, an integer or a float
  from the sheet, a missing value (NaN), a timestamp in nanoseconds since the epoch, a
  missing timestamp (NaT), a year-month period. A float64 number is modelled by the
  rational it denotes: the arithmetic is exact, the representation error of float64
  lies outside the model.
\<close>

datatype cell =
    CStr string
  | CInt int
  | CFloat rat
  | CNaN
  | CTime int
  | CNaT
  | CPeriod int int

record dataframe =
  columns :: "string list"
  rows :: "cell list list"

text \<open>The exceptions the modelled statements raise.\<close>

datatype error =
    KeyError string
  | ValueError
  | TypeError
  | OverflowError
  | MergeError

definition bind_err :: "error + 'a \<Rightarrow> ('a \<Rightarrow> error + 'b) \<Rightarrow> error + 'b" where
  "bind_err m f = (case m of Inl e \<Rightarrow> Inl e | Inr x \<Rightarrow> f x)"

text \<open>\<^verbatim>\<open>isna\<close>: the missing values.\<close>

fun isna :: "cell \<Rightarrow> bool" where
  "isna CNaN = True"
| "isna CNaT = True"
| "isna _ = False"

text \<open>
  \<^verbatim>\<open>df[c]\<close>: the positions of label \<open>c\<close>. No position raises KeyError, one position
  gives the column (a Series), several positions give a sub-table.
\<close>

definition get_loc :: "string list \<Rightarrow> string \<Rightarrow> nat list" where
  "get_loc cs c = filter (\<lambda>j. cs ! j = c) [0..<length cs]"

datatype item = Series "cell list" | Frame "cell list list"

definition getitem :: "dataframe \<Rightarrow> string \<Rightarrow> error + item" where
  "getitem df c =
     (case get_loc (columns df) c of
        [] \<Rightarrow> Inl (KeyError c)
      | [j] \<Rightarrow> Inr (Series (map (\<lambda>r. r ! j) (rows df)))
      | js \<Rightarrow> Inr (Frame (map (\<lambda>r. map (\<lambda>j. r ! j) js) (rows df))))"

text \<open>
  \<^verbatim>\<open>df[c] = values\<close>: the values need one entry per row (ValueError otherwise). A
  new label is appended as the last column; an existing label is overwritten in place,
  at every position that carries it.
\<close>

definition setitem :: "dataframe \<Rightarrow> string \<Rightarrow> cell list \<Rightarrow> error + dataframe" where
  "setitem df c vs =
     (if length vs \<noteq> length (rows df) then Inl ValueError
      else case get_loc (columns df) c of
        [] \<Rightarrow> Inr \<lparr>columns = columns df @ [c], rows = map2 (\<lambda>r v. r @ [v]) (rows df) vs\<rparr>
      | js \<Rightarrow> Inr (df\<lparr>rows := map2 (\<lambda>r v. fold (\<lambda>j r'. r'[j := v]) js r) (rows df) vs\<rparr>))"

text \<open>A function that may raise, applied to each element in turn.\<close>

fun map_err :: "('a \<Rightarrow> error + 'b) \<Rightarrow> 'a list \<Rightarrow> error + 'b list" where
  "map_err f [] = Inr []"
| "map_err f (x # xs) =
     bind_err (f x) (\<lambda>y. bind_err (map_err f xs) (\<lambda>ys. Inr (y # ys)))"

text \<open>
  A result of a reduction over \<^verbatim>\<open>df[c]\<close>: one value when the label names one column,
  one value per column (not computed here) when it names several.
\<close>

datatype 'a agg = Scalar 'a | PerColumn

text \<open>
  A numeric column as float64 with NaN: the view the reductions \<^verbatim>\<open>sum\<close> and
  \<^verbatim>\<open>mean\<close> work on. \<^verbatim>\<open>duration_hours\<close> is float64 in every table the
  normalizer returns; any other kind of cell makes the reduction raise.
\<close>

fun to_float :: "cell \<Rightarrow> error + rat option" where
  "to_float (CFloat x) = Inr (Some x)"
| "to_float (CInt n) = Inr (Some (of_int n))"
| "to_float CNaN = Inr None"
| "to_float _ = Inl TypeError"

text \<open>\<^verbatim>\<open>Series.sum()\<close> skips NaN; the sum of nothing is 0.\<close>

definition nansum :: "rat option list \<Rightarrow> rat" where
  "nansum xs = sum_list (map (\<lambda>x. case x of None \<Rightarrow> 0 | Some v \<Rightarrow> v) xs)"

text \<open>\<^verbatim>\<open>Series.mean()\<close> skips NaN; the mean of nothing is NaN.\<close>

definition nanmean :: "rat option list \<Rightarrow> rat option" where
  "nanmean xs =
     (let n = length (filter (\<lambda>x. x \<noteq> None) xs)
      in if n = 0 then None else Some (nansum xs / of_nat n))"

text \<open>\<^verbatim>\<open>df[c].sum()\<close>, \<^verbatim>\<open>df[c].mean()\<close> and \<^verbatim>\<open>df[c].nunique()\<close>.\<close>

definition col_sum :: "dataframe \<Rightarrow> string \<Rightarrow> error + rat agg" where
  "col_sum df c =
     bind_err (getitem df c)
       (\<lambda>it. case it of
          Series cs \<Rightarrow> bind_err (map_err to_float cs) (\<lambda>xs. Inr (Scalar (nansum xs)))
        | Frame _ \<Rightarrow> Inr PerColumn)"

definition col_mean :: "dataframe \<Rightarrow> string \<Rightarrow> error + rat option agg" where
  "col_mean df c =
     bind_err (getitem df c)
       (\<lambda>it. case it of
          Series cs \<Rightarrow> bind_err (map_err to_float cs) (\<lambda>xs. Inr (Scalar (nanmean xs)))
        | Frame _ \<Rightarrow> Inr PerColumn)"

definition col_nunique :: "dataframe \<Rightarrow> string \<Rightarrow> error + nat agg" where
  "col_nunique df c =
     bind_err (getitem df c)
       (\<lambda>it. case it of
          Series cs \<Rightarrow> Inr (Scalar (length (remdups (filter (\<lambda>v. \<not> isna v) cs))))
        | Frame _ \<Rightarrow> Inr PerColumn)"

section \<open>Strings\<close>

text \<open>
  \<^verbatim>\<open>str.strip()\<close>, \<^verbatim>\<open>str.lower()\<close> and \<^verbatim>\<open>str.startswith\<close> on ASCII text: the
  white space of ASCII, the letters A to Z.
\<close>

definition is_space :: "char \<Rightarrow> bool" where
  "is_space c \<longleftrightarrow>
     c \<in> set [CHR 0x09, CHR 0x0A, CHR 0x0B, CHR 0x0C, CHR 0x0D,
               CHR 0x1C, CHR 0x1D, CHR 0x1E, CHR 0x1F, CHR 0x20]"

definition strip :: "string \<Rightarrow> string" where
  "strip s = rev (dropWhile is_space (rev (dropWhile is_space s)))"

definition lower_char :: "char \<Rightarrow> char" where
  "lower_char c =
     (if CHR ''A'' \<le> c \<and> c \<le> CHR ''Z'' then char_of (of_char c + (32 :: nat)) else c)"

definition lower :: "string \<Rightarrow> string" where
  "lower s = map lower_char s"

definition startswith :: "string \<Rightarrow> string \<Rightarrow> bool" where
  "startswith s p \<longleftrightarrow> take (length p) s = p"

fun join :: "string \<Rightarrow> string list \<Rightarrow> string" where
  "join sep [] = []"
| "join sep [x] = x"
| "join sep (x # y # ys) = x @ sep @ join sep (y # ys)"

definition digit_char :: "nat \<Rightarrow> char" where
  "digit_char d = char_of (48 + d)"

function show_nat :: "nat \<Rightarrow> string" where
  "show_nat n = (if n < 10 then [digit_char n] else show_nat (n div 10) @ [digit_char (n mod 10)])"
  by pat_completeness auto
termination
  by (relation "measure id") auto

definition show_int :: "int \<Rightarrow> string" where
  "show_int i = (if i < 0 then CHR ''-'' # show_nat (nat (- i)) else show_nat (nat i))"

definition zfill :: "nat \<Rightarrow> string \<Rightarrow> string" where
  "zfill w s = replicate (w - length s) (CHR ''0'') @ s"

section \<open>Timestamps\<close>

text \<open>
  A \<^verbatim>\<open>datetime64[ns]\<close> value is a number of nanoseconds since 1970-01-01T00:00:00,
  without a time zone. Its calendar fields are those of the proleptic Gregorian
  calendar: the day number is the floor of the nanoseconds by the length of a day, and
  the civil date of a day number is computed era by era (400 years, 146097 days).
\<close>

definition ns_per_day :: int where
  "ns_per_day = 86400000000000"

definition days_of :: "int \<Rightarrow> int" where
  "days_of t = t div ns_per_day"

definition civil_from_days :: "int \<Rightarrow> int \<times> int \<times> int" where
  "civil_from_days z0 =
     (let z = z0 + 719468;
          era = z div 146097;
          doe = z mod 146097;
          yoe = (doe - doe div 1460 + doe div 36524 - doe div 146096) div 365;
          y = yoe + era * 400;
          doy = doe - (365 * yoe + yoe div 4 - yoe div 100);
          mp = (5 * doy + 2) div 153;
          d = doy - (153 * mp + 2) div 5 + 1;
          m = (if mp < 10 then mp + 3 else mp - 9)
      in (if m \<le> 2 then y + 1 else y, m, d))"

definition days_from_civil :: "int \<Rightarrow> int \<Rightarrow> int \<Rightarrow> int" where
  "days_from_civil y0 m d =
     (let y = (if m \<le> 2 then y0 - 1 else y0);
          era = y div 400;
          yoe = y mod 400;
          doy = (153 * (if m > 2 then m - 3 else m + 9) + 2) div 5 + d - 1;
          doe = yoe * 365 + yoe div 4 - yoe div 100 + doy
      in era * 146097 + doe - 719468)"

text \<open>\<^verbatim>\<open>.dt.to_period("M")\<close>: the year and the month; NaT stays NaT.\<close>

definition to_period_M :: "int option \<Rightarrow> cell" where
  "to_period_M t =
     (case t of None \<Rightarrow> CNaT
      | Some ns \<Rightarrow> (case civil_from_days (days_of ns) of (y, m, d) \<Rightarrow> CPeriod y m))"

text \<open>\<^verbatim>\<open>.dt.day_name()\<close>: 1970-01-01 was a Thursday; NaT gives a missing value.\<close>

definition weekday_names :: "string list" where
  "weekday_names =
     [''Monday'', ''Tuesday'', ''Wednesday'', ''Thursday'', ''Friday'', ''Saturday'', ''Sunday'']"

definition day_name :: "int option \<Rightarrow> cell" where
  "day_name t =
     (case t of None \<Rightarrow> CNaN
      | Some ns \<Rightarrow> CStr (weekday_names ! nat ((days_of ns + 3) mod 7)))"

text \<open>A period as \<^verbatim>\<open>astype(str)\<close> prints it (years of four digits, as pandas has them).\<close>

definition period_str :: "int \<Rightarrow> int \<Rightarrow> string" where
  "period_str y m = show_int y @ ''-'' @ zfill 2 (show_int m)"

text \<open>The datetime view of a \<^verbatim>\<open>datetime64\<close> column; other cells have no such view.\<close>

fun dt_value :: "cell \<Rightarrow> error + int option" where
  "dt_value (CTime t) = Inr (Some t)"
| "dt_value CNaT = Inr None"
| "dt_value _ = Inl TypeError"

definition ts_cell :: "int option \<Rightarrow> cell" where
  "ts_cell t = (case t of None \<Rightarrow> CNaT | Some ns \<Rightarrow> CTime ns)"

text \<open>
  The difference of two timestamps is a \<^verbatim>\<open>timedelta64[ns]\<close>, a signed 64-bit count of
  nanoseconds whose least value stands for NaT: a difference outside that range raises
  OverflowError, a missing operand gives a missing difference.
\<close>

definition sub_datetime :: "int option \<times> int option \<Rightarrow> error + int option" where
  "sub_datetime p =
     (case p of
        (Some e, Some s) \<Rightarrow>
          if - (2 ^ 63) < e - s \<and> e - s < 2 ^ 63 then Inr (Some (e - s)) else Inl OverflowError
      | _ \<Rightarrow> Inr None)"

text \<open>
  \<^verbatim>\<open>round(2)\<close> is numpy's: scale by 100, round to the nearest integer with ties to the
  even one, scale back.
\<close>

definition rint :: "rat \<Rightarrow> int" where
  "rint x =
     (let f = \<lfloor>x\<rfloor>; r = x - of_int f
      in if r < 1 / 2 then f else if 1 / 2 < r then f + 1 else if even f then f else f + 1)"

definition np_round :: "nat \<Rightarrow> rat \<Rightarrow> rat" where
  "np_round decimals x = of_int (rint (x * 10 ^ decimals)) / 10 ^ decimals"

text \<open>\<^verbatim>\<open>(delta.dt.total_seconds() / 3600).round(2)\<close> for one difference.\<close>

definition total_seconds :: "int \<Rightarrow> rat" where
  "total_seconds td = of_int td / 10 ^ 9"

definition hours_rounded :: "int option \<Rightarrow> cell" where
  "hours_rounded td =
     (case td of None \<Rightarrow> CNaN | Some d \<Rightarrow> CFloat (np_round 2 (total_seconds d / 3600)))"

section \<open>Normalization\<close>

text \<open>
  \<^verbatim>\<open>normalize_log_df\<close> works on the table object it is given: each of its six
  statements either raises before it changes anything or replaces the object's state.
  Tables live in a store of objects; the function takes the object's address and
  returns the address it returns in Python, with the store as it leaves it. When a
  statement raises, the statements before it have already taken effect.

  \<^verbatim>\<open>pd.to_datetime(column, errors="coerce")\<close> is a parameter: a function from the
  column's cells to one timestamp or NaT per cell.
\<close>

type_synonym heap = "nat \<Rightarrow> dataframe"

fun run_stmts :: "(dataframe \<Rightarrow> error + dataframe) list \<Rightarrow> dataframe \<Rightarrow> error option \<times> dataframe" where
  "run_stmts [] df = (None, df)"
| "run_stmts (s # ss) df = (case s df of Inl e \<Rightarrow> (Some e, df) | Inr df' \<Rightarrow> run_stmts ss df')"

text \<open>\<^verbatim>\<open>df.columns = df.columns.str.strip()\<close>\<close>

definition strip_columns :: "dataframe \<Rightarrow> error + dataframe" where
  "strip_columns df = Inr (df\<lparr>columns := map strip (columns df)\<rparr>)"

text \<open>
  \<^verbatim>\<open>df[c] = pd.to_datetime(df[c], errors="coerce")\<close>. Given a sub-table,
  \<^verbatim>\<open>to_datetime\<close> looks for year, month and day columns and raises ValueError.
\<close>

definition assign_to_datetime ::
    "(cell list \<Rightarrow> int option list) \<Rightarrow> string \<Rightarrow> dataframe \<Rightarrow> error + dataframe" where
  "assign_to_datetime to_datetime c df =
     bind_err (getitem df c)
       (\<lambda>it. case it of
          Series cs \<Rightarrow> setitem df c (map ts_cell (to_datetime cs))
        | Frame _ \<Rightarrow> Inl ValueError)"

text \<open>
  \<^verbatim>\<open>df["duration_hours"] = ((df["Full End"] - df["Full Start"]).dt.total_seconds() / 3600).round(2)\<close>
\<close>

definition assign_duration :: "dataframe \<Rightarrow> error + dataframe" where
  "assign_duration df =
     bind_err (getitem df ''Full End'') (\<lambda>e.
     bind_err (getitem df ''Full Start'') (\<lambda>s.
       case (e, s) of
         (Series es, Series ss) \<Rightarrow>
           bind_err (map_err dt_value es) (\<lambda>ev.
           bind_err (map_err dt_value ss) (\<lambda>sv.
           bind_err (map_err sub_datetime (zip ev sv)) (\<lambda>delta.
             setitem df ''duration_hours'' (map hours_rounded delta))))
       | _ \<Rightarrow> Inl TypeError))"

text \<open>
  \<^verbatim>\<open>df["month"] = pd.to_datetime(df["Full Start"]).dt.to_period("M")\<close> and
  \<^verbatim>\<open>df["weekday"] = pd.to_datetime(df["Full Start"]).dt.day_name()\<close>: on a column that
  holds timestamps already, \<^verbatim>\<open>to_datetime\<close> returns the column.
\<close>

definition assign_from_start :: "string \<Rightarrow> (int option \<Rightarrow> cell) \<Rightarrow> dataframe \<Rightarrow> error + dataframe" where
  "assign_from_start c f df =
     bind_err (getitem df ''Full Start'')
       (\<lambda>it. case it of
          Series ss \<Rightarrow> bind_err (map_err dt_value ss) (\<lambda>sv. setitem df c (map f sv))
        | Frame _ \<Rightarrow> Inl ValueError)"

definition normalize_log_stmts ::
    "(cell list \<Rightarrow> int option list) \<Rightarrow> (dataframe \<Rightarrow> error + dataframe) list" where
  "normalize_log_stmts to_datetime =
     [strip_columns,
      assign_to_datetime to_datetime ''Full Start'',
      assign_to_datetime to_datetime ''Full End'',
      assign_duration,
      assign_from_start ''month'' to_period_M,
      assign_from_start ''weekday'' day_name]"

definition normalize_log_df ::
    "(cell list \<Rightarrow> int option list) \<Rightarrow> nat \<Rightarrow> heap \<Rightarrow> (error + nat) \<times> heap" where
  "normalize_log_df to_datetime df h =
     (case run_stmts (normalize_log_stmts to_datetime) (h df) of
        (None, d) \<Rightarrow> (Inr df, h(df := d))
      | (Some e, d) \<Rightarrow> (Inl e, h(df := d)))"

definition normalize_register_df :: "nat \<Rightarrow> heap \<Rightarrow> (error + nat) \<times> heap" where
  "normalize_register_df df h =
     (case run_stmts [strip_columns] (h df) of
        (None, d) \<Rightarrow> (Inr df, h(df := d))
      | (Some e, d) \<Rightarrow> (Inl e, h(df := d)))"

section \<open>Achievement badges\<close>

text \<open>
  \<^verbatim>\<open>playtime_achievements\<close>: the milestone table of the source, in its order. The titles
  start with an emoji, given here by its UTF-8 bytes.
\<close>

definition milestones :: "(rat \<times> string) list" where
  "milestones =
     [(100, [CHR 0xF0, CHR 0x9F, CHR 0x8E, CHR 0xAF] @ '' Casual Grinder''),
      (250, [CHR 0xF0, CHR 0x9F, CHR 0x94, CHR 0xA5] @ '' Hardcore Enthusiast''),
      (500, [CHR 0xE2, CHR 0x9A, CHR 0x94, CHR 0xEF, CHR 0xB8, CHR 0x8F] @ '' Legendary Gamer''),
      (1000, [CHR 0xF0, CHR 0x9F, CHR 0x91, CHR 0x91] @ '' God-Tier Completionist'')]"

definition badge_span :: "string \<Rightarrow> string" where
  "badge_span title =
     ''<span style='' @ [CHR 0x27] @
     ''background:rgba(102,194,255,0.1);border:1px solid #66c2ff;border-radius:8px;'' @
     ''padding:6px 10px;margin:5px;display:inline-block;'' @ [CHR 0x27] @ ''>'' @
     title @ ''</span>''"

text \<open>
  The function builds the list \<^verbatim>\<open>badges\<close> and shows it when it is not empty; the model
  returns the list. With several columns labelled \<^verbatim>\<open>duration_hours\<close> the comparison
  gives a Series, whose truth value raises ValueError.
\<close>

definition playtime_achievements :: "dataframe \<Rightarrow> error + string list" where
  "playtime_achievements df =
     bind_err (col_sum df ''duration_hours'')
       (\<lambda>s. case s of
          Scalar total_hours \<Rightarrow>
            Inr (map (\<lambda>(hrs, title). badge_span title)
                   (filter (\<lambda>(hrs, title). total_hours \<ge> hrs) milestones))
        | PerColumn \<Rightarrow> Inl ValueError)"

definition achievements_markdown :: "string list \<Rightarrow> string option" where
  "achievements_markdown badges =
     (if badges = [] then None
      else Some (''**Achievements Unlocked:** '' @ join '' '' badges))"

section \<open>Joining the log with the register\<close>

text \<open>
  \<^verbatim>\<open>pd.merge(left, right, left_on=lk, right_on=rk, how="left")\<close>; \<^verbatim>\<open>on=k\<close> is the
  case where both keys are \<open>k\<close>, and then the right key column is dropped from the
  result. A key label that is missing raises KeyError (the right one is looked up
  first), one that names several columns raises ValueError. Labels that both sides
  carry get the suffixes \<^verbatim>\<open>_x\<close> and \<^verbatim>\<open>_y\<close>; a duplicate label that the suffixes create
  raises MergeError.

  The rows: for each left row in order, one output row per right row with an equal key
  cell, in the right table's order; a left row without a match is kept once, its right
  part filled with missing values. Key cells are compared as they are, and two missing
  keys are equal, as in pandas.
\<close>

definition drop_nth :: "nat \<Rightarrow> 'a list \<Rightarrow> 'a list" where
  "drop_nth j xs = take j xs @ drop (Suc j) xs"

definition suffix_dups :: "string list \<Rightarrow> string list \<Rightarrow> bool" where
  "suffix_dups orig renamed \<longleftrightarrow>
     list_ex (\<lambda>p. renamed ! p \<in> set (take p renamed) \<and> orig ! p \<notin> set (take p orig))
       [0..<length renamed]"

definition left_join_rows ::
    "nat \<Rightarrow> nat \<Rightarrow> (cell list \<Rightarrow> cell list) \<Rightarrow> nat \<Rightarrow> cell list list \<Rightarrow> cell list list \<Rightarrow> cell list list" where
  "left_join_rows i j rpart width lrows rrows =
     concat (map (\<lambda>l. let ms = filter (\<lambda>r. r ! j = l ! i) rrows
                       in if ms = [] then [l @ replicate width CNaN]
                          else map (\<lambda>r. l @ rpart r) ms) lrows)"

definition pd_merge_left :: "dataframe \<Rightarrow> dataframe \<Rightarrow> string \<Rightarrow> string \<Rightarrow> error + dataframe" where
  "pd_merge_left left right left_on right_on =
     (case get_loc (columns right) right_on of
        [] \<Rightarrow> Inl (KeyError right_on)
      | [j] \<Rightarrow>
          (case get_loc (columns left) left_on of
             [] \<Rightarrow> Inl (KeyError left_on)
           | [i] \<Rightarrow>
               (let rpart = (\<lambda>r. if left_on = right_on then drop_nth j r else r);
                    rcols = (if left_on = right_on then drop_nth j (columns right)
                             else columns right);
                    llabels = map (\<lambda>c. if c \<in> set rcols then c @ ''_x'' else c) (columns left);
                    rlabels = map (\<lambda>c. if c \<in> set (columns left) then c @ ''_y'' else c) rcols
                in if suffix_dups (columns left) llabels \<or> suffix_dups rcols rlabels
                   then Inl MergeError
                   else Inr \<lparr>columns = llabels @ rlabels,
                             rows = left_join_rows i j rpart (length rcols) (rows left) (rows right)\<rparr>)
           | _ \<Rightarrow> Inl ValueError)
      | _ \<Rightarrow> Inl ValueError)"

definition merge_data :: "dataframe \<Rightarrow> dataframe \<Rightarrow> error + dataframe" where
  "merge_data log_df reg_df =
     (if ''UID'' \<in> set (columns log_df) \<and> ''UID'' \<in> set (columns reg_df)
      then pd_merge_left log_df reg_df ''UID'' ''UID''
      else pd_merge_left log_df reg_df ''GAME'' ''Game'')"

section \<open>Summary metrics\<close>

text \<open>
  \<^verbatim>\<open>show_summary_metrics\<close> computes four numbers and prints them; the model returns the
  numbers. Printing the total or the average with a float format raises TypeError when
  the label \<^verbatim>\<open>duration_hours\<close> names several columns.
\<close>

record summary =
  total_hours :: rat
  total_sessions :: nat
  unique_games :: "nat agg"
  avg_session :: "rat option"

definition show_summary_metrics :: "dataframe \<Rightarrow> error + summary" where
  "show_summary_metrics df =
     bind_err (col_sum df ''duration_hours'') (\<lambda>th.
     let n = length (rows df) in
     bind_err (if ''GAME'' \<in> set (columns df) then col_nunique df ''GAME'' else Inr (Scalar 0)) (\<lambda>ug.
     bind_err (if n > 0 then col_mean df ''duration_hours'' else Inr (Scalar (Some 0))) (\<lambda>av.
       case (th, av) of
         (Scalar t, Scalar a) \<Rightarrow>
           Inr \<lparr>total_hours = t, total_sessions = n, unique_games = ug, avg_session = a\<rparr>
       | _ \<Rightarrow> Inl TypeError)))"

section \<open>Rollups\<close>

text \<open>
  The order of group keys, as \<^verbatim>\<open>groupby\<close> sorts them: numbers before strings, numbers
  by value, strings by code point.
\<close>

fun cell_key :: "cell \<Rightarrow> nat \<times> rat \<times> string" where
  "cell_key (CInt n) = (0, of_int n, [])"
| "cell_key (CFloat x) = (0, x, [])"
| "cell_key (CStr s) = (1, 0, s)"
| "cell_key (CTime t) = (2, of_int t, [])"
| "cell_key (CPeriod y m) = (3, of_int (y * 12 + m), [])"
| "cell_key CNaN = (4, 0, [])"
| "cell_key CNaT = (4, 0, [])"

text \<open>\<^verbatim>\<open>unique()\<close>: the distinct values in order of first appearance.\<close>

definition unique :: "'a list \<Rightarrow> 'a list" where
  "unique xs = rev (remdups (rev xs))"

text \<open>
  \<^verbatim>\<open>groupby(key)[value].sum()\<close> over rows given as pairs of key and value: one entry
  per distinct key, in ascending order of the keys, with the sum of the group's values
  (NaN skipped).
\<close>

definition groupby_sum :: "('k \<Rightarrow> 'o::linorder) \<Rightarrow> ('k \<times> rat option) list \<Rightarrow> ('k \<times> rat) list" where
  "groupby_sum ord kvs =
     map (\<lambda>k. (k, nansum (map snd (filter (\<lambda>kv. fst kv = k) kvs))))
       (sort_key ord (unique (map fst kvs)))"

text \<open>
  \<^verbatim>\<open>sort_values(ascending=False)\<close> with the default \<^verbatim>\<open>kind="quicksort"\<close>: pandas reverses
  the values, asks numpy for the indices that sort them in ascending order, takes the
  entries at these indices and reverses the result. numpy's index sort is a parameter
  \<open>argsort\<close>: its quicksort does not promise an order among equal values.
  \<open>sorts argsort\<close> says what every index sort does: the indices it returns are a
  rearrangement of all positions and list the values in ascending order.
\<close>

definition sort_values_desc :: "(rat list \<Rightarrow> nat list) \<Rightarrow> ('k \<times> rat) list \<Rightarrow> ('k \<times> rat) list" where
  "sort_values_desc argsort kvs =
     (let r = rev kvs in rev (map (\<lambda>i. r ! i) (argsort (map snd r))))"

definition sorts :: "(rat list \<Rightarrow> nat list) \<Rightarrow> bool" where
  "sorts argsort \<longleftrightarrow>
     (\<forall>xs. mset (argsort xs) = mset [0..<length xs] \<and> sorted (map (\<lambda>i. xs ! i) (argsort xs)))"

text \<open>
  The index sort numpy runs on short arrays (insertion sort, up to 16 elements): equal
  values keep their order.
\<close>

definition insertion_argsort :: "rat list \<Rightarrow> nat list" where
  "insertion_argsort xs = sort_key (\<lambda>i. xs ! i) [0..<length xs]"

text \<open>
  \<^verbatim>\<open>top_games = df.groupby("GAME")["duration_hours"].sum().sort_values(ascending=False).head(15)\<close>
  in \<^verbatim>\<open>main_charts\<close>. \<^verbatim>\<open>groupby\<close> leaves out the rows whose key is missing.
\<close>

definition top_games :: "(rat list \<Rightarrow> nat list) \<Rightarrow> dataframe \<Rightarrow> error + (cell \<times> rat) list" where
  "top_games argsort df =
     bind_err (getitem df ''GAME'') (\<lambda>g.
       case g of
         Frame _ \<Rightarrow> Inl ValueError
       | Series gs \<Rightarrow>
           bind_err (getitem df ''duration_hours'') (\<lambda>d.
             case d of
               Frame _ \<Rightarrow> Inl TypeError
             | Series cs \<Rightarrow>
                 bind_err (map_err to_float cs) (\<lambda>ds.
                   Inr (take 15 (sort_values_desc argsort
                          (groupby_sum cell_key
                             (filter (\<lambda>kv. \<not> isna (fst kv)) (zip gs ds))))))))"

text \<open>
  \<^verbatim>\<open>month_agg = df.groupby(df["month"].astype(str))["duration_hours"].sum().reset_index()\<close>.
  \<^verbatim>\<open>month\<close> is a period column in every table the normalizer returns; as a string a
  period reads \<^verbatim>\<open>2024-01\<close> and a missing one \<^verbatim>\<open>NaT\<close>.
\<close>

fun month_str :: "cell \<Rightarrow> error + string" where
  "month_str (CPeriod y m) = Inr (period_str y m)"
| "month_str CNaT = Inr ''NaT''"
| "month_str _ = Inl TypeError"

definition month_agg :: "dataframe \<Rightarrow> error + (string \<times> rat) list" where
  "month_agg df =
     bind_err (getitem df ''month'') (\<lambda>m.
       case m of
         Frame _ \<Rightarrow> Inl ValueError
       | Series ms \<Rightarrow>
           bind_err (map_err month_str ms) (\<lambda>keys.
           bind_err (getitem df ''duration_hours'') (\<lambda>d.
             case d of
               Frame _ \<Rightarrow> Inl TypeError
             | Series cs \<Rightarrow>
                 bind_err (map_err to_float cs) (\<lambda>ds.
                   Inr (groupby_sum (\<lambda>k. k) (zip keys ds))))))"

section \<open>Genre filter\<close>

text \<open>
  \<^verbatim>\<open>sorted(all_tags)\<close>: Python orders numbers among themselves and strings among
  themselves, and raises TypeError when it has to compare a number with a string.
\<close>

definition py_sorted :: "cell list \<Rightarrow> error + cell list" where
  "py_sorted xs =
     (if list_all (\<lambda>x. fst (cell_key x) = fst (cell_key (hd xs))) xs
      then Inr (sort_key cell_key xs) else Inl TypeError)"

text \<open>
  \<^verbatim>\<open>genre_filter\<close>: the genre-tag columns are those whose label, in lower case, starts
  with \<^verbatim>\<open>genretag\<close>; \<^verbatim>\<open>all_tags\<close> are their values, missing ones dropped, each once.
  The sorted tags are the options of the sidebar's multiselect; what the user selected
  there is the parameter \<open>selected_tags\<close>.
\<close>

definition genre_cols :: "dataframe \<Rightarrow> string list" where
  "genre_cols df_register =
     filter (\<lambda>c. startswith (lower c) ''genretag'') (columns df_register)"

definition genre_locs :: "dataframe \<Rightarrow> nat list" where
  "genre_locs df_register =
     concat (map (get_loc (columns df_register)) (genre_cols df_register))"

definition all_tags :: "dataframe \<Rightarrow> cell list" where
  "all_tags df_register =
     unique (filter (\<lambda>v. \<not> isna v)
       (concat (map (\<lambda>j. map (\<lambda>r. r ! j) (rows df_register)) (genre_locs df_register))))"

definition genre_filter :: "cell list \<Rightarrow> dataframe \<Rightarrow> error + dataframe" where
  "genre_filter selected_tags df_register =
     (if genre_cols df_register = [] then Inr df_register
      else
        bind_err (py_sorted (all_tags df_register)) (\<lambda>options.
          if selected_tags \<noteq> []
          then Inr (df_register\<lparr>rows :=
                 filter (\<lambda>r. list_ex (\<lambda>j. r ! j \<in> set selected_tags) (genre_locs df_register))
                   (rows df_register)\<rparr>)
          else Inr df_register))"

section \<open>A parser for ISO timestamps\<close>

text \<open>
  An instance of the \<^verbatim>\<open>to_datetime\<close> parameter for the examples: it reads the strings
  \<^verbatim>\<open>new_session_form\<close> writes with \<^verbatim>\<open>isoformat()\<close>, such as \<^verbatim>\<open>2024-01-01T20:00:00\<close>,
  and gives NaT for every other cell.
\<close>

definition num_of :: "string \<Rightarrow> int option" where
  "num_of s =
     (if s \<noteq> [] \<and> list_all (\<lambda>c. CHR ''0'' \<le> c \<and> c \<le> CHR ''9'') s
      then Some (foldl (\<lambda>a c. 10 * a + (int (of_char c) - 48)) 0 s) else None)"

definition days_in_month :: "int \<Rightarrow> int \<Rightarrow> int" where
  "days_in_month y m =
     (if m = 2 then (if y mod 4 = 0 \<and> (y mod 100 \<noteq> 0 \<or> y mod 400 = 0) then 29 else 28)
      else if m \<in> {4, 6, 9, 11} then 30 else 31)"

definition iso_datetime :: "string \<Rightarrow> int option" where
  "iso_datetime s =
     (if length s = 19 \<and> s ! 4 = CHR ''-'' \<and> s ! 7 = CHR ''-'' \<and> s ! 10 = CHR ''T''
         \<and> s ! 13 = CHR '':'' \<and> s ! 16 = CHR '':''
      then
        (case (num_of (take 4 s), num_of (take 2 (drop 5 s)), num_of (take 2 (drop 8 s)),
               num_of (take 2 (drop 11 s)), num_of (take 2 (drop 14 s)), num_of (take 2 (drop 17 s))) of
           (Some y, Some m, Some d, Some hh, Some mm, Some ss) \<Rightarrow>
             if 1 \<le> m \<and> m \<le> 12 \<and> 1 \<le> d \<and> d \<le> days_in_month y m \<and> hh < 24 \<and> mm < 60 \<and> ss < 60
             then Some ((days_from_civil y m d * 86400 + hh * 3600 + mm * 60 + ss) * 10 ^ 9)
             else None
         | _ \<Rightarrow> None)
      else None)"

definition iso_to_datetime :: "cell list \<Rightarrow> int option list" where
  "iso_to_datetime cs = map (\<lambda>c. case c of CStr s \<Rightarrow> iso_datetime s | _ \<Rightarrow> None) cs"

section \<open>Well-formed tables and column contents\<close>

text \<open>
  A table is rectangular when each row has one cell per column label.
  \<open>column_is df c vs\<close> says that the label \<open>c\<close> is present and that every column
  carrying it holds the values \<open>vs\<close>, one per row.
\<close>

definition rectangular :: "dataframe \<Rightarrow> bool" where
  "rectangular df \<longleftrightarrow> (\<forall>r\<in>set (rows df). length r = length (columns df))"

definition column_is :: "dataframe \<Rightarrow> string \<Rightarrow> cell list \<Rightarrow> bool" where
  "column_is df c vs \<longleftrightarrow>
     get_loc (columns df) c \<noteq> [] \<and> length vs = length (rows df)
     \<and> (\<forall>n<length (rows df). \<forall>j\<in>set (get_loc (columns df) c). rows df ! n ! j = vs ! n)"

section \<open>Example tables\<close>

definition badges_260 :: dataframe where
  "badges_260 =
     \<lparr>columns = [''GAME'', ''duration_hours''],
      rows = [[CStr ''Chrono Trigger'', CFloat 130],
              [CStr ''Tetris'', CNaN],
              [CStr ''Tetris'', CFloat 130]]\<rparr>"

definition badges_120 :: dataframe where
  "badges_120 =
     \<lparr>columns = [''GAME'', ''duration_hours''],
      rows = [[CStr ''Chrono Trigger'', CFloat 120]]\<rparr>"

definition empty_merged :: dataframe where
  "empty_merged =
     \<lparr>columns = [''GAME'', ''Full Start'', ''Full End'', ''duration_hours'', ''month'', ''weekday'',
                  ''Game'', ''genretag1''],
      rows = []\<rparr>"

definition scenario_d :: dataframe where
  "scenario_d =
     \<lparr>columns = [''Game'', ''genretag1'', ''genretag2''],
      rows = [[CStr ''Chrono Trigger'', CStr ''RPG'', CStr ''Adventure'']]\<rparr>"

definition scenario_c_log :: dataframe where
  "scenario_c_log =
     \<lparr>columns = [''UID'', ''GAME'', ''duration_hours''],
      rows = [[CInt 1, CStr ''Zelda'', CFloat 2],
              [CInt 7, CStr ''Doom'', CFloat 1],
              [CInt 3, CStr ''Tetris'', CFloat 4]]\<rparr>"

definition scenario_c_reg :: dataframe where
  "scenario_c_reg =
     \<lparr>columns = [''UID'', ''Game'', ''genretag1''],
      rows = [[CInt 1, CStr ''The Legend of Zelda'', CStr ''RPG''],
              [CInt 2, CStr ''Doom'', CStr ''FPS''],
              [CInt 3, CStr ''Tetris'', CStr ''Puzzle''],
              [CInt 3, CStr ''Tetris 99'', CStr ''Puzzle'']]\<rparr>"

definition scenario_c_merged :: dataframe where
  "scenario_c_merged =
     \<lparr>columns = [''UID'', ''GAME'', ''duration_hours'', ''Game'', ''genretag1''],
      rows = [[CInt 1, CStr ''Zelda'', CFloat 2, CStr ''The Legend of Zelda'', CStr ''RPG''],
              [CInt 7, CStr ''Doom'', CFloat 1, CNaN, CNaN],
              [CInt 3, CStr ''Tetris'', CFloat 4, CStr ''Tetris'', CStr ''Puzzle''],
              [CInt 3, CStr ''Tetris'', CFloat 4, CStr ''Tetris 99'', CStr ''Puzzle'']]\<rparr>"

definition fallback_log :: dataframe where
  "fallback_log =
     \<lparr>columns = [''GAME'', ''duration_hours''],
      rows = [[CStr ''Zelda'', CFloat 2],
              [CStr ''Doom'', CFloat 1]]\<rparr>"

definition fallback_reg :: dataframe where
  "fallback_reg =
     \<lparr>columns = [''UID'', ''Game''],
      rows = [[CInt 2, CStr ''Doom''],
              [CInt 1, CStr ''Chrono Trigger'']]\<rparr>"

definition fallback_merged :: dataframe where
  "fallback_merged =
     \<lparr>columns = [''GAME'', ''duration_hours'', ''UID'', ''Game''],
      rows = [[CStr ''Zelda'', CFloat 2, CNaN, CNaN],
              [CStr ''Doom'', CFloat 1, CInt 2, CStr ''Doom'']]\<rparr>"

definition scenario_a :: dataframe where
  "scenario_a =
     \<lparr>columns = ['' GAME'', ''Full Start'', ''Full End ''],
      rows = [[CStr ''Chrono Trigger'', CStr ''2024-01-01T20:00:00'', CStr ''2024-01-01T22:30:00''],
              [CStr ''Tetris'', CStr ''last night'', CStr ''2024-01-02T10:00:00'']]\<rparr>"

definition scenario_a_normalized :: dataframe where
  "scenario_a_normalized =
     \<lparr>columns = [''GAME'', ''Full Start'', ''Full End'', ''duration_hours'', ''month'', ''weekday''],
      rows = [[CStr ''Chrono Trigger'', CTime 1704139200000000000, CTime 1704148200000000000,
               CFloat (5 / 2), CPeriod 2024 1, CStr ''Monday''],
              [CStr ''Tetris'', CNaT, CTime 1704189600000000000, CNaN, CNaT, CNaN]]\<rparr>"

definition scenario_heap :: heap where
  "scenario_heap = (\<lambda>_. scenario_a)"

definition tie_rows :: dataframe where
  "tie_rows =
     \<lparr>columns = [''GAME'', ''duration_hours''],
      rows = [[CStr ''Zelda'', CFloat 1],
              [CStr ''Asteroids'', CFloat 1],
              [CStr ''Doom'', CFloat 3],
              [CNaN, CFloat 5],
              [CStr ''Zelda'', CNaN]]\<rparr>"

definition untitled_rows :: dataframe where
  "untitled_rows =
     \<lparr>columns = [''GAME'', ''duration_hours''],
      rows = [[CStr ''Zelda'', CFloat 1],
              [CNaN, CFloat 5],
              [CStr ''Doom'', CFloat 3]]\<rparr>"

section \<open>Badges: the thresholds\<close>

lemma bind_err_simps [simp]:
  "bind_err (Inl e) f = Inl e"
  "bind_err (Inr x) f = f x"
  by (simp_all add: bind_err_def)

lemma bind_err_eq_Inr:
  "bind_err m f = Inr y \<longleftrightarrow> (\<exists>x. m = Inr x \<and> f x = Inr y)"
  by (cases m) simp_all

text \<open>
  C4. The badges are those of the table 100 Casual Grinder, 250 Hardcore Enthusiast,
  500 Legendary Gamer, 1000 God-Tier Completionist whose threshold the total hours
  reach, all of them, in ascending order of threshold; a total of 260 gives the first
  two.
\<close>

theorem playtime_achievements_thresholds:
  assumes "col_sum df ''duration_hours'' = Inr (Scalar th)"
  shows "(let casual = [CHR 0xF0, CHR 0x9F, CHR 0x8E, CHR 0xAF] @ '' Casual Grinder'';
              hardcore = [CHR 0xF0, CHR 0x9F, CHR 0x94, CHR 0xA5] @ '' Hardcore Enthusiast'';
              legendary = [CHR 0xE2, CHR 0x9A, CHR 0x94, CHR 0xEF, CHR 0xB8, CHR 0x8F] @ '' Legendary Gamer'';
              godtier = [CHR 0xF0, CHR 0x9F, CHR 0x91, CHR 0x91] @ '' God-Tier Completionist''
          in playtime_achievements df = Inr (map badge_span
               (if th < 100 then []
                else if th < 250 then [casual]
                else if th < 500 then [casual, hardcore]
                else if th < 1000 then [casual, hardcore, legendary]
                else [casual, hardcore, legendary, godtier]))
             \<and> (th = 260 \<longrightarrow> playtime_achievements df = Inr [badge_span casual, badge_span hardcore]))"
  using assms by (simp add: playtime_achievements_def milestones_def Let_def)

theorem playtime_achievements_thresholds_witness:
  "col_sum badges_260 ''duration_hours'' = Inr (Scalar 260)
   \<and> playtime_achievements badges_260 =
       Inr [badge_span ([CHR 0xF0, CHR 0x9F, CHR 0x8E, CHR 0xAF] @ '' Casual Grinder''),
            badge_span ([CHR 0xF0, CHR 0x9F, CHR 0x94, CHR 0xA5] @ '' Hardcore Enthusiast'')]"
proof -
  have h: "col_sum badges_260 ''duration_hours'' = Inr (Scalar 260)"
    by code_simp
  show ?thesis
    using h playtime_achievements_thresholds [OF h] by (simp add: Let_def)
qed

lemma reached_prefix:
  fixes ms :: "(rat \<times> 'a) list"
  assumes "sorted (map fst ms)" and "t1 \<le> t2"
  shows "\<exists>more. filter (\<lambda>(hrs, title). hrs \<le> t2) ms = filter (\<lambda>(hrs, title). hrs \<le> t1) ms @ more"
  using assms(1)
proof (induction ms)
  case Nil
  then show ?case by simp
next
  case (Cons m ms)
  obtain h t where m: "m = (h, t)" by (cases m)
  from Cons.prems have later: "\<forall>x\<in>set ms. h \<le> fst x" and "sorted (map fst ms)"
    by (auto simp: m)
  show ?case
  proof (cases "h \<le> t1")
    case True
    with Cons.IH \<open>sorted (map fst ms)\<close> assms(2) show ?thesis
      by (auto simp: m)
  next
    case False
    with later have "filter (\<lambda>(hrs, title). hrs \<le> t1) ms = []"
      by (auto simp: filter_empty_conv)
    with False show ?thesis
      by (simp add: m)
  qed
qed

text \<open>
  C8. The badges grow with the total: when the total hours of a second table are at
  least those of a first, every badge of the first is a badge of the second (the
  second list starts with the first).
\<close>

theorem playtime_achievements_monotone:
  assumes "col_sum df1 ''duration_hours'' = Inr (Scalar t1)"
    and "col_sum df2 ''duration_hours'' = Inr (Scalar t2)"
    and "t1 \<le> t2"
    and "playtime_achievements df1 = Inr b1"
    and "playtime_achievements df2 = Inr b2"
  shows "set b1 \<subseteq> set b2 \<and> (\<exists>more. b2 = b1 @ more)"
proof -
  have b1: "b1 = map (\<lambda>(hrs, title). badge_span title) (filter (\<lambda>(hrs, title). hrs \<le> t1) milestones)"
    using assms(1,4) by (simp add: playtime_achievements_def)
  have b2: "b2 = map (\<lambda>(hrs, title). badge_span title) (filter (\<lambda>(hrs, title). hrs \<le> t2) milestones)"
    using assms(2,5) by (simp add: playtime_achievements_def)
  have "sorted (map fst milestones)"
    by (simp add: milestones_def)
  from reached_prefix [OF this assms(3)] obtain more where
    "filter (\<lambda>(hrs, title). hrs \<le> t2) milestones = filter (\<lambda>(hrs, title). hrs \<le> t1) milestones @ more"
    by blast
  then have "b2 = b1 @ map (\<lambda>(hrs, title). badge_span title) more"
    by (simp add: b1 b2)
  then show ?thesis by auto
qed

theorem playtime_achievements_monotone_witness:
  "col_sum badges_120 ''duration_hours'' = Inr (Scalar 120)
   \<and> col_sum badges_260 ''duration_hours'' = Inr (Scalar 260)
   \<and> (120 :: rat) \<le> 260
   \<and> set (projr (playtime_achievements badges_120)) \<subseteq> set (projr (playtime_achievements badges_260))"
proof -
  have h1: "col_sum badges_120 ''duration_hours'' = Inr (Scalar 120)"
    by code_simp
  have h2: "col_sum badges_260 ''duration_hours'' = Inr (Scalar 260)"
    by code_simp
  have b1: "playtime_achievements badges_120 = Inr (projr (playtime_achievements badges_120))"
    using h1 by (simp add: playtime_achievements_def)
  have b2: "playtime_achievements badges_260 = Inr (projr (playtime_achievements badges_260))"
    using h2 by (simp add: playtime_achievements_def)
  show ?thesis
    using h1 h2 playtime_achievements_monotone [OF h1 h2 _ b1 b2] by simp
qed

section \<open>Reading columns\<close>

lemma get_loc_single:
  assumes "length (get_loc cs c) = 1"
  shows "\<exists>j. get_loc cs c = [j]"
  using assms by (cases "get_loc cs c") auto

lemma getitem_no_rows:
  assumes "rows df = []" and "get_loc (columns df) c = [j]"
  shows "getitem df c = Inr (Series [])"
  using assms by (simp add: getitem_def)

lemma sorts_Nil:
  assumes "sorts argsort"
  shows "argsort [] = []"
proof -
  from assms have "mset (argsort []) = mset [0..<length ([] :: rat list)]"
    unfolding sorts_def by blast
  then show ?thesis by simp
qed

lemma sorts_insertion_argsort: "sorts insertion_argsort"
  unfolding sorts_def insertion_argsort_def
proof (intro allI conjI)
  fix xs :: "rat list"
  show "mset (sort_key ((!) xs) [0..<length xs]) = mset [0..<length xs]"
    by simp
  show "sorted (map ((!) xs) (sort_key ((!) xs) [0..<length xs]))"
    by (rule sorted_sort_key)
qed

section \<open>The empty table\<close>

text \<open>
  C6. On a merged table without rows (it has the columns \<^verbatim>\<open>duration_hours\<close>,
  \<^verbatim>\<open>GAME\<close> and \<^verbatim>\<open>month\<close> the pipeline gives it) every aggregate returns: the total is
  0, the session count is 0, the average is exactly 0, there is no badge and both
  rollups are empty.
\<close>

theorem empty_table_aggregates:
  assumes "rows df = []"
    and "length (get_loc (columns df) ''duration_hours'') = 1"
    and "length (get_loc (columns df) ''GAME'') = 1"
    and "length (get_loc (columns df) ''month'') = 1"
    and "sorts argsort"
  shows "show_summary_metrics df =
           Inr \<lparr>total_hours = 0, total_sessions = 0, unique_games = Scalar 0, avg_session = Some 0\<rparr>
         \<and> playtime_achievements df = Inr []
         \<and> achievements_markdown [] = None
         \<and> top_games argsort df = Inr []
         \<and> month_agg df = Inr []"
proof -
  from assms(2) obtain jd where "get_loc (columns df) ''duration_hours'' = [jd]"
    using get_loc_single by blast
  with assms(1) have d: "getitem df ''duration_hours'' = Inr (Series [])"
    by (rule getitem_no_rows)
  from assms(3) obtain jg where jg: "get_loc (columns df) ''GAME'' = [jg]"
    using get_loc_single by blast
  with assms(1) have g: "getitem df ''GAME'' = Inr (Series [])"
    by (rule getitem_no_rows)
  from assms(4) obtain jm where "get_loc (columns df) ''month'' = [jm]"
    using get_loc_single by blast
  with assms(1) have m: "getitem df ''month'' = Inr (Series [])"
    by (rule getitem_no_rows)
  have s: "col_sum df ''duration_hours'' = Inr (Scalar 0)"
    by (simp add: col_sum_def d nansum_def)
  have u: "col_nunique df ''GAME'' = Inr (Scalar 0)"
    by (simp add: col_nunique_def g)
  have 1: "show_summary_metrics df =
      Inr \<lparr>total_hours = 0, total_sessions = 0, unique_games = Scalar 0, avg_session = Some 0\<rparr>"
    by (simp add: show_summary_metrics_def s u assms(1))
  have 2: "playtime_achievements df = Inr []"
    by (simp add: playtime_achievements_def s milestones_def)
  have 3: "achievements_markdown [] = None"
    by (simp add: achievements_markdown_def)
  have 4: "top_games argsort df = Inr []"
    by (simp add: top_games_def g d groupby_sum_def unique_def sort_values_desc_def
        sorts_Nil [OF assms(5)])
  have 5: "month_agg df = Inr []"
    by (simp add: month_agg_def m d groupby_sum_def unique_def)
  from 1 2 3 4 5 show ?thesis by blast
qed

theorem empty_table_aggregates_witness:
  "rows empty_merged = []
   \<and> length (get_loc (columns empty_merged) ''duration_hours'') = 1
   \<and> length (get_loc (columns empty_merged) ''GAME'') = 1
   \<and> length (get_loc (columns empty_merged) ''month'') = 1
   \<and> sorts insertion_argsort
   \<and> show_summary_metrics empty_merged =
       Inr \<lparr>total_hours = 0, total_sessions = 0, unique_games = Scalar 0, avg_session = Some 0\<rparr>
   \<and> playtime_achievements empty_merged = Inr []
   \<and> top_games insertion_argsort empty_merged = Inr []
   \<and> month_agg empty_merged = Inr []"
proof -
  have r: "rows empty_merged = []"
    by (simp add: empty_merged_def)
  have d: "length (get_loc (columns empty_merged) ''duration_hours'') = 1"
    by code_simp
  have g: "length (get_loc (columns empty_merged) ''GAME'') = 1"
    by code_simp
  have m: "length (get_loc (columns empty_merged) ''month'') = 1"
    by code_simp
  show ?thesis
    using r d g m sorts_insertion_argsort
      empty_table_aggregates [OF r d g m sorts_insertion_argsort]
    by simp
qed

section \<open>The genre filter\<close>

lemma set_genre_locs:
  "set (genre_locs df) =
     {j. j < length (columns df) \<and> startswith (lower (columns df ! j)) ''genretag''}"
  by (auto simp: genre_locs_def genre_cols_def get_loc_def)

lemma genre_mask:
  "list_ex (\<lambda>j. r ! j \<in> S) (genre_locs df) \<longleftrightarrow>
     (\<exists>j<length (columns df). startswith (lower (columns df ! j)) ''genretag'' \<and> r ! j \<in> S)"
  by (auto simp: list_ex_iff set_genre_locs)

text \<open>
  C7. When the tags can be sorted for the sidebar (or there is no genre-tag column),
  the filter returns: the table itself when nothing is selected or no genre-tag
  column exists, and otherwise exactly the rows in which some genre-tag column holds a
  selected tag, in their order.
\<close>

theorem genre_filter_rows:
  "genre_filter selected df =
     (if genre_cols df = [] then Inr df
      else case py_sorted (all_tags df) of
        Inl e \<Rightarrow> Inl e
      | Inr options \<Rightarrow>
          Inr (if selected = [] then df
               else df\<lparr>rows :=
                 filter (\<lambda>r. \<exists>j<length (columns df).
                           startswith (lower (columns df ! j)) ''genretag'' \<and> r ! j \<in> set selected)
                   (rows df)\<rparr>))"
  by (simp add: genre_filter_def genre_mask split: sum.splits)

theorem genre_filter_rows_witness:
  "genre_filter [CStr ''RPG''] scenario_d = Inr scenario_d
   \<and> filter (\<lambda>r. \<exists>j<length (columns scenario_d).
                startswith (lower (columns scenario_d ! j)) ''genretag'' \<and> r ! j \<in> set [CStr ''RPG''])
       (rows scenario_d) = rows scenario_d
   \<and> genre_filter [CStr ''Platformer''] scenario_d = Inr (scenario_d\<lparr>rows := []\<rparr>)
   \<and> filter (\<lambda>r. \<exists>j<length (columns scenario_d).
                startswith (lower (columns scenario_d ! j)) ''genretag'' \<and> r ! j \<in> set [CStr ''Platformer''])
       (rows scenario_d) = []
   \<and> genre_filter [] scenario_d = Inr scenario_d"
proof -
  have c: "genre_cols scenario_d \<noteq> []"
    by code_simp
  have s: "py_sorted (all_tags scenario_d) = Inr [CStr ''Adventure'', CStr ''RPG'']"
    by code_simp
  have rpg: "genre_filter [CStr ''RPG''] scenario_d = Inr scenario_d"
    by code_simp
  have plat: "genre_filter [CStr ''Platformer''] scenario_d = Inr (scenario_d\<lparr>rows := []\<rparr>)"
    by code_simp
  have "scenario_d\<lparr>rows := filter (\<lambda>r. \<exists>j<length (columns scenario_d).
                startswith (lower (columns scenario_d ! j)) ''genretag'' \<and> r ! j \<in> set [CStr ''RPG''])
       (rows scenario_d)\<rparr> = scenario_d"
    using genre_filter_rows [of "[CStr ''RPG'']" scenario_d] rpg by (simp add: c s)
  then have keep: "rows (scenario_d\<lparr>rows := filter (\<lambda>r. \<exists>j<length (columns scenario_d).
                startswith (lower (columns scenario_d ! j)) ''genretag'' \<and> r ! j \<in> set [CStr ''RPG''])
       (rows scenario_d)\<rparr>) = rows scenario_d"
    by simp
  have "scenario_d\<lparr>rows := filter (\<lambda>r. \<exists>j<length (columns scenario_d).
                startswith (lower (columns scenario_d ! j)) ''genretag'' \<and> r ! j \<in> set [CStr ''Platformer''])
       (rows scenario_d)\<rparr> = scenario_d\<lparr>rows := []\<rparr>"
    using genre_filter_rows [of "[CStr ''Platformer'']" scenario_d] plat by (simp add: c s)
  then have drop: "rows (scenario_d\<lparr>rows := filter (\<lambda>r. \<exists>j<length (columns scenario_d).
                startswith (lower (columns scenario_d ! j)) ''genretag'' \<and> r ! j \<in> set [CStr ''Platformer''])
       (rows scenario_d)\<rparr>) = rows (scenario_d\<lparr>rows := []\<rparr>)"
    by simp
  have none: "genre_filter [] scenario_d = Inr scenario_d"
    using genre_filter_rows [of "[]" scenario_d] by (simp add: c s)
  from rpg plat none keep drop show ?thesis
    by simp
qed

section \<open>The join\<close>

lemma pd_merge_left_rows:
  assumes "pd_merge_left left right lk rk = Inr m"
  shows "\<exists>i j. get_loc (columns left) lk = [i] \<and> get_loc (columns right) rk = [j]
           \<and> rows m = left_join_rows i j (\<lambda>r. if lk = rk then drop_nth j r else r)
                        (length (columns m) - length (columns left)) (rows left) (rows right)"
  using assms
  by (auto simp: pd_merge_left_def Let_def split: list.splits if_splits)

lemma set_left_join_rows:
  "set (left_join_rows i j rpart w ls rs) =
     {row. \<exists>l\<in>set ls.
        (\<exists>r\<in>set rs. r ! j = l ! i \<and> row = l @ rpart r)
        \<or> ((\<forall>r\<in>set rs. r ! j \<noteq> l ! i) \<and> row = l @ replicate w CNaN)}"
  by (auto simp: left_join_rows_def Let_def filter_empty_conv)

text \<open>
  C2. The join key is chosen from the column labels alone: \<^verbatim>\<open>UID\<close> on both sides when
  both tables have that label, otherwise \<^verbatim>\<open>GAME\<close> of the log against \<^verbatim>\<open>Game\<close> of the
  register. The merged rows are those of a left outer join on equality of that key:
  a log row with each register row of equal key, and a log row once with missing
  register fields when no register row has its key.
\<close>

theorem merge_data_key:
  assumes "merge_data log_df reg_df = Inr merged"
  shows "(case (if ''UID'' \<in> set (columns log_df) \<and> ''UID'' \<in> set (columns reg_df)
               then (''UID'', ''UID'') else (''GAME'', ''Game'')) of
            (lk, rk) \<Rightarrow>
              \<exists>i j. get_loc (columns log_df) lk = [i] \<and> get_loc (columns reg_df) rk = [j]
                \<and> set (rows merged) =
                    {row. \<exists>l\<in>set (rows log_df).
                       (\<exists>r\<in>set (rows reg_df). r ! j = l ! i
                            \<and> row = l @ (if lk = rk then drop_nth j r else r))
                       \<or> ((\<forall>r\<in>set (rows reg_df). r ! j \<noteq> l ! i)
                            \<and> row = l @ replicate (length (columns merged) - length (columns log_df)) CNaN)})"
proof (cases "''UID'' \<in> set (columns log_df) \<and> ''UID'' \<in> set (columns reg_df)")
  case True
  with assms have "pd_merge_left log_df reg_df ''UID'' ''UID'' = Inr merged"
    by (simp add: merge_data_def)
  from pd_merge_left_rows [OF this] True show ?thesis
    by (auto simp: set_left_join_rows)
next
  case False
  with assms have "pd_merge_left log_df reg_df ''GAME'' ''Game'' = Inr merged"
    by (simp add: merge_data_def)
  from pd_merge_left_rows [OF this] False show ?thesis
    by (auto simp: set_left_join_rows)
qed

theorem merge_data_key_witness:
  "merge_data scenario_c_log scenario_c_reg = Inr scenario_c_merged
   \<and> (\<exists>i j. get_loc (columns scenario_c_log) ''UID'' = [i]
          \<and> get_loc (columns scenario_c_reg) ''UID'' = [j]
          \<and> set (rows scenario_c_merged) =
                    {row. \<exists>l\<in>set (rows scenario_c_log).
                       (\<exists>r\<in>set (rows scenario_c_reg). r ! j = l ! i \<and> row = l @ drop_nth j r)
                       \<or> ((\<forall>r\<in>set (rows scenario_c_reg). r ! j \<noteq> l ! i)
                            \<and> row = l @ replicate 2 CNaN)})
   \<and> merge_data fallback_log fallback_reg = Inr fallback_merged
   \<and> (\<exists>i j. get_loc (columns fallback_log) ''GAME'' = [i]
          \<and> get_loc (columns fallback_reg) ''Game'' = [j]
          \<and> set (rows fallback_merged) =
                    {row. \<exists>l\<in>set (rows fallback_log).
                       (\<exists>r\<in>set (rows fallback_reg). r ! j = l ! i \<and> row = l @ r)
                       \<or> ((\<forall>r\<in>set (rows fallback_reg). r ! j \<noteq> l ! i)
                            \<and> row = l @ replicate 2 CNaN)})"
proof -
  have c: "merge_data scenario_c_log scenario_c_reg = Inr scenario_c_merged"
    by code_simp
  have f: "merge_data fallback_log fallback_reg = Inr fallback_merged"
    by code_simp
  have uid: "''UID'' \<in> set (columns scenario_c_log) \<and> ''UID'' \<in> set (columns scenario_c_reg)"
    by (simp add: scenario_c_log_def scenario_c_reg_def)
  have no_uid: "''UID'' \<notin> set (columns fallback_log)"
    by (simp add: fallback_log_def)
  have wc: "length (columns scenario_c_merged) - length (columns scenario_c_log) = 2"
    by (simp add: scenario_c_merged_def scenario_c_log_def)
  have wf: "length (columns fallback_merged) - length (columns fallback_log) = 2"
    by (simp add: fallback_merged_def fallback_log_def)
  show ?thesis
    using c f merge_data_key [OF c] merge_data_key [OF f]
    by (simp add: uid no_uid wc wf)
qed

lemma left_join_blocks:
  "\<exists>blocks. left_join_rows i j rpart w ls rs = concat blocks \<and> length blocks = length ls
     \<and> (\<forall>n<length ls.
           let l = ls ! n; k = length (filter (\<lambda>r. r ! j = l ! i) rs)
           in length (blocks ! n) = max 1 k
              \<and> (\<forall>row\<in>set (blocks ! n). take (length l) row = l)
              \<and> (k = 0 \<longrightarrow> blocks ! n = [l @ replicate w CNaN]))"
  by (rule exI [of _ "map (\<lambda>l. let ms = filter (\<lambda>r. r ! j = l ! i) rs
                               in if ms = [] then [l @ replicate w CNaN]
                                  else map (\<lambda>r. l @ rpart r) ms) ls"])
     (auto simp: left_join_rows_def Let_def Suc_le_eq)

lemma unique_key_matches:
  assumes "distinct (map (\<lambda>r. r ! j) rs)"
  shows "length (filter (\<lambda>r. r ! j = k) rs) \<le> 1"
  using assms
proof (induction rs)
  case Nil
  then show ?case by simp
next
  case (Cons r rs)
  show ?case
  proof (cases "r ! j = k")
    case True
    from Cons.prems have "r ! j \<notin> (\<lambda>r. r ! j) ` set rs"
      by simp
    with True have "\<forall>x\<in>set rs. x ! j \<noteq> k"
      by blast
    then have "filter (\<lambda>r. r ! j = k) rs = []"
      by (simp add: filter_empty_conv)
    with True show ?thesis by simp
  next
    case False
    with Cons show ?thesis by simp
  qed
qed

lemma left_join_unique:
  assumes "distinct (map (\<lambda>r. r ! j) rs)"
  shows "left_join_rows i j rpart w ls rs =
           map (\<lambda>l. case filter (\<lambda>r. r ! j = l ! i) rs of
                       [] \<Rightarrow> l @ replicate w CNaN
                     | r # _ \<Rightarrow> l @ rpart r) ls"
proof -
  have one: "(let ms = filter (\<lambda>r. r ! j = l ! i) rs
              in if ms = [] then [l @ replicate w CNaN] else map (\<lambda>r. l @ rpart r) ms)
           = [case filter (\<lambda>r. r ! j = l ! i) rs of
                [] \<Rightarrow> l @ replicate w CNaN | r # _ \<Rightarrow> l @ rpart r]" for l
    using unique_key_matches [OF assms, of "l ! i"]
    by (cases "filter (\<lambda>r. r ! j = l ! i) rs") (auto simp: Let_def)
  show ?thesis
    unfolding left_join_rows_def one by (induction ls) simp_all
qed

lemma left_join_keeps:
  assumes "l \<in> set ls"
  shows "\<exists>row\<in>set (left_join_rows i j rpart w ls rs). take (length l) row = l"
proof (cases "filter (\<lambda>r. r ! j = l ! i) rs")
  case Nil
  then have "l @ replicate w CNaN \<in> set (left_join_rows i j rpart w ls rs)"
    using assms by (auto simp: set_left_join_rows filter_empty_conv)
  then show ?thesis by (rule bexI [rotated]) simp
next
  case (Cons r ms)
  then have "r \<in> set (filter (\<lambda>r. r ! j = l ! i) rs)" by simp
  then have "l @ rpart r \<in> set (left_join_rows i j rpart w ls rs)"
    using assms by (auto simp: set_left_join_rows)
  then show ?thesis by (rule bexI [rotated]) simp
qed

lemma pd_merge_left_table:
  assumes "pd_merge_left left right lk rk = Inr m"
  shows "\<exists>i j. get_loc (columns left) lk = [i] \<and> get_loc (columns right) rk = [j]
           \<and> (\<exists>blocks. rows m = concat blocks \<and> length blocks = length (rows left)
                 \<and> (\<forall>n<length (rows left).
                       let l = rows left ! n;
                           k = length (filter (\<lambda>r. r ! j = l ! i) (rows right))
                       in length (blocks ! n) = max 1 k
                          \<and> (\<forall>row\<in>set (blocks ! n). take (length l) row = l)
                          \<and> (k = 0 \<longrightarrow> blocks ! n =
                               [l @ replicate (length (columns m) - length (columns left)) CNaN])))
           \<and> (\<forall>l\<in>set (rows left). \<exists>row\<in>set (rows m). take (length l) row = l)
           \<and> (distinct (map (\<lambda>r. r ! j) (rows right)) \<longrightarrow>
                length (rows m) = length (rows left)
                \<and> (\<forall>n<length (rows left).
                      take (length (rows left ! n)) (rows m ! n) = rows left ! n))"
proof -
  from pd_merge_left_rows [OF assms] obtain i j where
    i: "get_loc (columns left) lk = [i]" and j: "get_loc (columns right) rk = [j]" and
    r: "rows m = left_join_rows i j (\<lambda>r. if lk = rk then drop_nth j r else r)
       (length (columns m) - length (columns left)) (rows left) (rows right)"
    by blast
  have d: "length (rows m) = length (rows left)
      \<and> (\<forall>n<length (rows left). take (length (rows left ! n)) (rows m ! n) = rows left ! n)"
    if "distinct (map (\<lambda>r. r ! j) (rows right))"
    unfolding r left_join_unique [OF that] by (auto split: list.splits)
  have b: "\<exists>blocks. rows m = concat blocks \<and> length blocks = length (rows left)
                 \<and> (\<forall>n<length (rows left).
                       let l = rows left ! n;
                           k = length (filter (\<lambda>r. r ! j = l ! i) (rows right))
                       in length (blocks ! n) = max 1 k
                          \<and> (\<forall>row\<in>set (blocks ! n). take (length l) row = l)
                          \<and> (k = 0 \<longrightarrow> blocks ! n =
                               [l @ replicate (length (columns m) - length (columns left)) CNaN]))"
    unfolding r by (rule left_join_blocks)
  have k: "\<forall>l\<in>set (rows left). \<exists>row\<in>set (rows m). take (length l) row = l"
    unfolding r using left_join_keeps by blast
  show ?thesis
    apply (rule exI [of _ i])
    apply (rule exI [of _ j])
    apply (intro conjI impI)
         apply (rule i)
        apply (rule j)
       apply (rule b)
      apply (rule k)
     apply (simp add: d)
    apply (simp add: d)
    done
qed

text \<open>
  C3. Every log row appears in the merged table. The merged rows come in blocks, one
  block per log row in the log's order: the block of a log row has one row per
  register row with its key, each starting with the log row, and a log row without a
  match has a block of one row whose register fields are missing. No duplicate is
  removed; when the register's keys are distinct the merged table has exactly one row
  per log row.
\<close>

theorem merge_data_rows:
  assumes "merge_data log_df reg_df = Inr merged"
  shows "(case (if ''UID'' \<in> set (columns log_df) \<and> ''UID'' \<in> set (columns reg_df)
               then (''UID'', ''UID'') else (''GAME'', ''Game'')) of
            (lk, rk) \<Rightarrow>
              \<exists>i j. get_loc (columns log_df) lk = [i] \<and> get_loc (columns reg_df) rk = [j]
                \<and> (\<exists>blocks. rows merged = concat blocks \<and> length blocks = length (rows log_df)
                      \<and> (\<forall>n<length (rows log_df).
                            let l = rows log_df ! n;
                                k = length (filter (\<lambda>r. r ! j = l ! i) (rows reg_df))
                            in length (blocks ! n) = max 1 k
                               \<and> (\<forall>row\<in>set (blocks ! n). take (length l) row = l)
                               \<and> (k = 0 \<longrightarrow> blocks ! n =
                                    [l @ replicate (length (columns merged) - length (columns log_df)) CNaN])))
                \<and> (\<forall>l\<in>set (rows log_df). \<exists>row\<in>set (rows merged). take (length l) row = l)
                \<and> (distinct (map (\<lambda>r. r ! j) (rows reg_df)) \<longrightarrow>
                     length (rows merged) = length (rows log_df)
                     \<and> (\<forall>n<length (rows log_df).
                           take (length (rows log_df ! n)) (rows merged ! n) = rows log_df ! n)))"
proof (cases "''UID'' \<in> set (columns log_df) \<and> ''UID'' \<in> set (columns reg_df)")
  case True
  with assms have m: "pd_merge_left log_df reg_df ''UID'' ''UID'' = Inr merged"
    by (simp add: merge_data_def)
  have sel: "(if ''UID'' \<in> set (columns log_df) \<and> ''UID'' \<in> set (columns reg_df)
               then (''UID'', ''UID'') else (''GAME'', ''Game'')) = (''UID'', ''UID'')"
    using True by simp
  show ?thesis
    unfolding sel prod.case by (rule pd_merge_left_table [OF m])
next
  case False
  with assms have m: "pd_merge_left log_df reg_df ''GAME'' ''Game'' = Inr merged"
    by (simp add: merge_data_def)
  have sel: "(if ''UID'' \<in> set (columns log_df) \<and> ''UID'' \<in> set (columns reg_df)
               then (''UID'', ''UID'') else (''GAME'', ''Game'')) = (''GAME'', ''Game'')"
    using False by simp
  show ?thesis
    unfolding sel prod.case by (rule pd_merge_left_table [OF m])
qed

theorem merge_data_rows_witness:
  "merge_data fallback_log fallback_reg = Inr fallback_merged
   \<and> distinct (map (\<lambda>r. r ! 1) (rows fallback_reg))
   \<and> length (rows fallback_merged) = length (rows fallback_log)
   \<and> list_all (\<lambda>l. list_ex (\<lambda>row. take (length l) row = l) (rows fallback_merged))
         (rows fallback_log)
   \<and> merge_data scenario_c_log scenario_c_reg = Inr scenario_c_merged
   \<and> length (filter (\<lambda>r. r ! 0 = rows scenario_c_log ! 1 ! 0) (rows scenario_c_reg)) = 0
   \<and> length (filter (\<lambda>r. r ! 0 = rows scenario_c_log ! 2 ! 0) (rows scenario_c_reg)) = 2
   \<and> list_all (\<lambda>l. list_ex (\<lambda>row. take (length l) row = l) (rows scenario_c_merged))
         (rows scenario_c_log)"
proof -
  have f: "merge_data fallback_log fallback_reg = Inr fallback_merged"
    by code_simp
  have fi: "get_loc (columns fallback_log) ''GAME'' = [0]"
    by code_simp
  have fj: "get_loc (columns fallback_reg) ''Game'' = [1]"
    by code_simp
  have no_uid: "''UID'' \<notin> set (columns fallback_log)"
    by (simp add: fallback_log_def)
  have d: "distinct (map (\<lambda>r. r ! 1) (rows fallback_reg))"
    by (simp add: fallback_reg_def)
  have 1: "length (rows fallback_merged) = length (rows fallback_log)
      \<and> (\<forall>l\<in>set (rows fallback_log). \<exists>row\<in>set (rows fallback_merged). take (length l) row = l)"
    using merge_data_rows [OF f] d by (simp add: no_uid fi fj)
  then have la: "list_all (\<lambda>l. list_ex (\<lambda>row. take (length l) row = l) (rows fallback_merged))
         (rows fallback_log)"
    by (simp add: list_all_iff list_ex_iff)
  have c: "merge_data scenario_c_log scenario_c_reg = Inr scenario_c_merged"
    by code_simp
  have ci: "get_loc (columns scenario_c_log) ''UID'' = [0]"
    by code_simp
  have cj: "get_loc (columns scenario_c_reg) ''UID'' = [0]"
    by code_simp
  have uid: "''UID'' \<in> set (columns scenario_c_log) \<and> ''UID'' \<in> set (columns scenario_c_reg)"
    by (simp add: scenario_c_log_def scenario_c_reg_def)
  have k0: "length (filter (\<lambda>r. r ! 0 = rows scenario_c_log ! 1 ! 0) (rows scenario_c_reg)) = 0"
    by (simp add: scenario_c_log_def scenario_c_reg_def)
  have k2: "length (filter (\<lambda>r. r ! 0 = rows scenario_c_log ! 2 ! 0) (rows scenario_c_reg)) = 2"
    by (simp add: scenario_c_log_def scenario_c_reg_def)
  have "\<forall>l\<in>set (rows scenario_c_log). \<exists>row\<in>set (rows scenario_c_merged). take (length l) row = l"
    using merge_data_rows [OF c] by (simp add: uid ci cj)
  then have 2: "list_all (\<lambda>l. list_ex (\<lambda>row. take (length l) row = l) (rows scenario_c_merged))
         (rows scenario_c_log)"
    by (simp add: list_all_iff list_ex_iff)
  from f d 1 la c k0 k2 2 show ?thesis
    by blast
qed

section \<open>Assigning columns\<close>

lemma set_get_loc: "set (get_loc cs c) = {j. j < length cs \<and> cs ! j = c}"
  by (auto simp: get_loc_def)

lemma get_loc_snoc:
  "get_loc (cs @ [x]) c = get_loc cs c @ (if x = c then [length cs] else [])"
proof -
  have "filter (\<lambda>j. (cs @ [x]) ! j = c) [0..<length cs] = filter (\<lambda>j. cs ! j = c) [0..<length cs]"
    by (rule filter_cong) (auto simp: nth_append)
  then show ?thesis
    by (simp add: get_loc_def)
qed

lemma get_loc_bound: "j \<in> set (get_loc cs c) \<Longrightarrow> j < length cs"
  by (simp add: set_get_loc)

lemma length_fold_update: "length (fold (\<lambda>j r'. r'[j := v]) js r) = length r"
  by (induction js arbitrary: r) simp_all

lemma nth_fold_update:
  "k < length r \<Longrightarrow> fold (\<lambda>j r'. r'[j := v]) js r ! k = (if k \<in> set js then v else r ! k)"
  by (induction js arbitrary: r) (auto simp: nth_list_update)

lemma map_err_Inr_iff:
  "map_err f xs = Inr ys \<longleftrightarrow> list_all2 (\<lambda>x y. f x = Inr y) xs ys"
proof (induction xs arbitrary: ys)
  case Nil
  then show ?case by auto
next
  case (Cons x xs)
  show ?case
    by (cases ys) (auto simp: bind_err_eq_Inr Cons.IH)
qed

lemma map_err_total:
  assumes "\<forall>x\<in>set xs. \<exists>y. f x = Inr y"
  shows "\<exists>ys. map_err f xs = Inr ys"
  using assms by (induction xs) auto

lemma map_err_dt_value: "map_err dt_value (map ts_cell ts) = Inr ts"
  by (induction ts) (auto simp: ts_cell_def split: option.splits)

lemma getitem_Series_iff:
  "getitem df c = Inr (Series xs) \<longleftrightarrow>
     (\<exists>j. get_loc (columns df) c = [j] \<and> xs = map (\<lambda>r. r ! j) (rows df))"
  by (auto simp: getitem_def split: list.splits)

lemma setitem_props:
  assumes s: "setitem d c vs = Inr d'" and r: "rectangular d"
  shows "rectangular d'"
    and "length (rows d') = length (rows d)"
    and "length vs = length (rows d)"
    and "column_is d' c vs"
    and "c' \<noteq> c \<Longrightarrow> get_loc (columns d') c' = get_loc (columns d) c'"
    and "c' \<noteq> c \<Longrightarrow> j \<in> set (get_loc (columns d) c') \<Longrightarrow> n < length (rows d)
           \<Longrightarrow> rows d' ! n ! j = rows d ! n ! j"
    and "columns d' = (if get_loc (columns d) c = [] then columns d @ [c] else columns d)"
    and "get_loc (columns d) c \<noteq> [] \<Longrightarrow> get_loc (columns d') c = get_loc (columns d) c"
proof -
  from s have len: "length vs = length (rows d)"
    by (auto simp: setitem_def split: if_splits)
  show "length vs = length (rows d)" by (rule len)
  show cols: "columns d' = (if get_loc (columns d) c = [] then columns d @ [c] else columns d)"
    using s len by (auto simp: setitem_def split: list.splits)
  show "get_loc (columns d) c \<noteq> [] \<Longrightarrow> get_loc (columns d') c = get_loc (columns d) c"
    using cols by simp
  show rows_len: "length (rows d') = length (rows d)"
    using s len by (auto simp: setitem_def split: list.splits)
  have rowlen: "length (rows d ! n) = length (columns d)" if "n < length (rows d)" for n
    using r that by (simp add: rectangular_def)
  show "c' \<noteq> c \<Longrightarrow> get_loc (columns d') c' = get_loc (columns d) c'"
    using cols by (simp add: get_loc_snoc)
  show "rectangular d'"
  proof (cases "get_loc (columns d) c = []")
    case True
    with s len have "rows d' = map2 (\<lambda>r v. r @ [v]) (rows d) vs" "columns d' = columns d @ [c]"
      by (auto simp: setitem_def)
    with r show ?thesis
      by (auto simp: rectangular_def dest!: set_zip_leftD)
  next
    case False
    with s len have "rows d' = map2 (\<lambda>r v. fold (\<lambda>j r'. r'[j := v]) (get_loc (columns d) c) r) (rows d) vs"
      "columns d' = columns d"
      by (auto simp: setitem_def split: list.splits)
    with r show ?thesis
      by (auto simp: rectangular_def length_fold_update dest!: set_zip_leftD)
  qed
  show "column_is d' c vs"
  proof (cases "get_loc (columns d) c = []")
    case True
    with s len have d': "rows d' = map2 (\<lambda>r v. r @ [v]) (rows d) vs" "columns d' = columns d @ [c]"
      by (auto simp: setitem_def)
    have g: "get_loc (columns d') c = [length (columns d)]"
      using True by (simp add: d' get_loc_snoc)
    show ?thesis
      unfolding column_is_def g using len rowlen by (auto simp: d' nth_append)
  next
    case False
    with s len have d': "rows d' = map2 (\<lambda>r v. fold (\<lambda>j r'. r'[j := v]) (get_loc (columns d) c) r) (rows d) vs"
      "columns d' = columns d"
      by (auto simp: setitem_def split: list.splits)
    have "rows d' ! n ! j = vs ! n"
      if "n < length (rows d)" "j \<in> set (get_loc (columns d) c)" for n j
    proof -
      from that have "j < length (rows d ! n)"
        using rowlen by (simp add: set_get_loc)
      with that len show ?thesis
        by (simp add: d' nth_fold_update)
    qed
    with len False show ?thesis
      unfolding column_is_def by (simp add: d')
  qed
  show "rows d' ! n ! j = rows d ! n ! j"
    if "c' \<noteq> c" "j \<in> set (get_loc (columns d) c')" "n < length (rows d)"
  proof (cases "get_loc (columns d) c = []")
    case True
    with s len have d': "rows d' = map2 (\<lambda>r v. r @ [v]) (rows d) vs"
      by (auto simp: setitem_def)
    from that have "j < length (columns d)" by (simp add: set_get_loc)
    with that len rowlen show ?thesis
      by (simp add: d' nth_append)
  next
    case False
    with s len have d': "rows d' = map2 (\<lambda>r v. fold (\<lambda>j r'. r'[j := v]) (get_loc (columns d) c) r) (rows d) vs"
      by (auto simp: setitem_def split: list.splits)
    from that have "j < length (columns d)" "j \<notin> set (get_loc (columns d) c)"
      by (auto simp: set_get_loc)
    with that len rowlen show ?thesis
      by (simp add: d' nth_fold_update)
  qed
qed

lemma column_is_getitem:
  assumes "getitem df c = Inr (Series xs)"
  shows "column_is df c xs"
  using assms by (auto simp: getitem_Series_iff column_is_def)

lemma getitem_column_is:
  assumes "getitem df c = Inr (Series xs)" and "column_is df c vs"
  shows "xs = vs"
proof -
  from assms(1) obtain j where j: "get_loc (columns df) c = [j]" "xs = map (\<lambda>r. r ! j) (rows df)"
    by (auto simp: getitem_Series_iff)
  with assms(2) show ?thesis
    by (auto simp: column_is_def intro: nth_equalityI)
qed

lemma setitem_total:
  assumes "length vs = length (rows d)"
  shows "\<exists>d'. setitem d c vs = Inr d'"
  using assms by (auto simp: setitem_def split: list.splits)

lemma setitem_keeps_column:
  assumes "setitem d c vs = Inr d'" and "rectangular d" and "c' \<noteq> c" and "column_is d c' ws"
  shows "column_is d' c' ws"
  using assms(4) setitem_props(2) [OF assms(1,2)] setitem_props(5) [OF assms(1,2,3)]
    setitem_props(6) [OF assms(1,2,3)]
  by (auto simp: column_is_def)

lemma setitem_keeps_getitem:
  assumes "setitem d c vs = Inr d'" and "rectangular d" and "c' \<noteq> c"
    and "getitem d c' = Inr (Series xs)"
  shows "getitem d' c' = Inr (Series xs)"
proof -
  from assms(4) obtain j where j: "get_loc (columns d) c' = [j]" "xs = map (\<lambda>r. r ! j) (rows d)"
    by (auto simp: getitem_Series_iff)
  have g: "get_loc (columns d') c' = [j]"
    using setitem_props(5) [OF assms(1,2,3)] j by simp
  have "map (\<lambda>r. r ! j) (rows d') = map (\<lambda>r. r ! j) (rows d)"
    using setitem_props(2) [OF assms(1,2)] setitem_props(6) [OF assms(1,2,3), of j] j(1)
    by (auto intro: nth_equalityI)
  with g j show ?thesis
    by (simp add: getitem_Series_iff)
qed

lemma setitem_getitem_same:
  assumes "setitem d c vs = Inr d'" and "rectangular d" and "getitem d c = Inr (Series xs)"
  shows "getitem d' c = Inr (Series vs)"
proof -
  from assms(3) obtain j where j: "get_loc (columns d) c = [j]"
    by (auto simp: getitem_Series_iff)
  then have g: "get_loc (columns d') c = [j]"
    using setitem_props(8) [OF assms(1,2)] by simp
  have "column_is d' c vs"
    by (rule setitem_props(4) [OF assms(1,2)])
  with g have "map (\<lambda>r. r ! j) (rows d') = vs"
    by (auto simp: column_is_def intro: nth_equalityI)
  with g show ?thesis
    by (simp add: getitem_Series_iff)
qed

lemma run_stmts_Cons_None:
  "run_stmts (s # ss) d = (None, d') \<longleftrightarrow> (\<exists>d1. s d = Inr d1 \<and> run_stmts ss d1 = (None, d'))"
  by (cases "s d") auto

lemma run_stmts_Nil_None: "run_stmts [] d = (None, d') \<longleftrightarrow> d' = d"
  by auto

lemma assign_to_datetime_Inr:
  "assign_to_datetime td c d = Inr d' \<longleftrightarrow>
     (\<exists>raw. getitem d c = Inr (Series raw) \<and> setitem d c (map ts_cell (td raw)) = Inr d')"
proof (cases "getitem d c")
  case (Inl e)
  then show ?thesis by (simp add: assign_to_datetime_def)
next
  case (Inr it)
  then show ?thesis by (cases it) (simp_all add: assign_to_datetime_def)
qed

lemma assign_from_start_Inr:
  "assign_from_start c f d = Inr d' \<longleftrightarrow>
     (\<exists>ss sv. getitem d ''Full Start'' = Inr (Series ss) \<and> map_err dt_value ss = Inr sv
        \<and> setitem d c (map f sv) = Inr d')"
proof (cases "getitem d ''Full Start''")
  case (Inl e)
  then show ?thesis by (simp add: assign_from_start_def)
next
  case (Inr it)
  then show ?thesis by (cases it) (simp_all add: assign_from_start_def bind_err_eq_Inr)
qed

lemma assign_duration_Inr:
  "assign_duration d = Inr d' \<longleftrightarrow>
     (\<exists>es ss ev sv delta. getitem d ''Full End'' = Inr (Series es)
        \<and> getitem d ''Full Start'' = Inr (Series ss)
        \<and> map_err dt_value es = Inr ev \<and> map_err dt_value ss = Inr sv
        \<and> map_err sub_datetime (zip ev sv) = Inr delta
        \<and> setitem d ''duration_hours'' (map hours_rounded delta) = Inr d')"
proof (cases "getitem d ''Full End''")
  case (Inl e)
  then show ?thesis by (simp add: assign_duration_def)
next
  case e: (Inr ie)
  show ?thesis
  proof (cases "getitem d ''Full Start''")
    case (Inl e')
    with e show ?thesis by (simp add: assign_duration_def)
  next
    case s: (Inr it)
    show ?thesis
      by (cases ie; cases it) (simp_all add: assign_duration_def e s bind_err_eq_Inr)
  qed
qed

lemma rint_near: "\<bar>of_int (rint x) - x\<bar> \<le> 1 / 2"
proof -
  have "of_int \<lfloor>x\<rfloor> \<le> x" "x < of_int \<lfloor>x\<rfloor> + 1"
    by linarith+
  then show ?thesis
    by (auto simp: rint_def Let_def abs_le_iff)
qed

lemma np_round_2:
  "\<exists>k::int. np_round 2 x = of_int k / 100 \<and> \<bar>np_round 2 x - x\<bar> \<le> 1 / 200"
proof -
  have "\<bar>of_int (rint (x * 100)) - x * 100\<bar> \<le> 1 / 2"
    by (rule rint_near)
  then have "\<bar>of_int (rint (x * 100)) / 100 - x\<bar> \<le> 1 / 200"
    by (simp add: abs_le_iff field_simps)
  then show ?thesis
    by (auto simp: np_round_def)
qed

section \<open>Normalizing the log\<close>

lemma setitem_getitem_other:
  assumes "setitem d c vs = Inr d'" and "rectangular d" and "c' \<noteq> c"
  shows "getitem d' c' = Inr (Series xs) \<longleftrightarrow> getitem d c' = Inr (Series xs)"
proof -
  have g: "get_loc (columns d') c' = get_loc (columns d) c'"
    by (rule setitem_props(5) [OF assms])
  have "map (\<lambda>r. r ! j) (rows d') = map (\<lambda>r. r ! j) (rows d)" if "get_loc (columns d) c' = [j]" for j
    using setitem_props(2) [OF assms(1,2)] setitem_props(6) [OF assms(1,2,3), of j] that
    by (auto intro: nth_equalityI)
  with g show ?thesis
    by (auto simp: getitem_Series_iff)
qed

lemma sub_datetime_total:
  assumes "length ev = length sv"
    and "\<forall>n<length sv. \<forall>s e. sv ! n = Some s \<longrightarrow> ev ! n = Some e
           \<longrightarrow> - (2 ^ 63) < e - s \<and> e - s < 2 ^ 63"
  shows "map_err sub_datetime (zip ev sv) =
           Inr (map (\<lambda>(e, s). case (e, s) of (Some a, Some b) \<Rightarrow> Some (a - b) | _ \<Rightarrow> None) (zip ev sv))"
  unfolding map_err_Inr_iff list_all2_conv_all_nth
proof (intro conjI allI impI)
  show "length (zip ev sv) = length (map (\<lambda>(e, s). case (e, s) of (Some a, Some b) \<Rightarrow> Some (a - b) | _ \<Rightarrow> None) (zip ev sv))"
    by simp
  fix n assume "n < length (zip ev sv)"
  then have n: "n < length sv" "n < length ev" by simp_all
  show "sub_datetime (zip ev sv ! n) =
      Inr (map (\<lambda>(e, s). case (e, s) of (Some a, Some b) \<Rightarrow> Some (a - b) | _ \<Rightarrow> None) (zip ev sv) ! n)"
    using n assms(2) by (auto simp: sub_datetime_def split: option.splits)
qed

lemma normalize_log_run:
  fixes td :: "cell list \<Rightarrow> int option list"
  assumes rect: "rectangular d0"
    and fs: "getitem (d0\<lparr>columns := map strip (columns d0)\<rparr>) ''Full Start'' = Inr (Series raw_s)"
    and fe: "getitem (d0\<lparr>columns := map strip (columns d0)\<rparr>) ''Full End'' = Inr (Series raw_e)"
    and ls: "length (td raw_s) = length (rows d0)"
    and le: "length (td raw_e) = length (rows d0)"
    and ok: "\<forall>n<length (rows d0). \<forall>s e. td raw_s ! n = Some s \<longrightarrow> td raw_e ! n = Some e
           \<longrightarrow> - (2 ^ 63) < e - s \<and> e - s < 2 ^ 63"
  shows "\<exists>d6. run_stmts (normalize_log_stmts td) d0 = (None, d6)
      \<and> column_is d6 ''Full Start'' (map ts_cell (td raw_s))
      \<and> column_is d6 ''Full End'' (map ts_cell (td raw_e))
      \<and> column_is d6 ''duration_hours''
           (map (\<lambda>(e, s). hours_rounded (case (e, s) of (Some a, Some b) \<Rightarrow> Some (a - b) | _ \<Rightarrow> None))
              (zip (td raw_e) (td raw_s)))
      \<and> column_is d6 ''month'' (map to_period_M (td raw_s))
      \<and> column_is d6 ''weekday'' (map day_name (td raw_s))"
proof -
  define d1 where "d1 = d0\<lparr>columns := map strip (columns d0)\<rparr>"
  have s1: "strip_columns d0 = Inr d1"
    by (simp add: strip_columns_def d1_def)
  have r1: "rectangular d1" and n1: "length (rows d1) = length (rows d0)"
    using rect by (simp_all add: d1_def rectangular_def)
  \<comment> \<open>Full Start\<close>
  obtain d2 where set2: "setitem d1 ''Full Start'' (map ts_cell (td raw_s)) = Inr d2"
    using setitem_total [of "map ts_cell (td raw_s)" d1] ls n1 by auto
  have s2: "assign_to_datetime td ''Full Start'' d1 = Inr d2"
    using fs set2 by (auto simp: assign_to_datetime_Inr d1_def)
  note p2 = setitem_props [OF set2 r1]
  have g2s: "getitem d2 ''Full Start'' = Inr (Series (map ts_cell (td raw_s)))"
    using setitem_getitem_same [OF set2 r1] fs by (simp add: d1_def)
  have g2e: "getitem d2 ''Full End'' = Inr (Series raw_e)"
    using setitem_getitem_other [OF set2 r1, of "''Full End''"] fe by (simp add: d1_def)
  \<comment> \<open>Full End\<close>
  obtain d3 where set3: "setitem d2 ''Full End'' (map ts_cell (td raw_e)) = Inr d3"
    using setitem_total [of "map ts_cell (td raw_e)" d2] le n1 p2(2) by auto
  have s3: "assign_to_datetime td ''Full End'' d2 = Inr d3"
    using g2e set3 by (auto simp: assign_to_datetime_Inr)
  note p3 = setitem_props [OF set3 p2(1)]
  have g3e: "getitem d3 ''Full End'' = Inr (Series (map ts_cell (td raw_e)))"
    using setitem_getitem_same [OF set3 p2(1) g2e] .
  have g3s: "getitem d3 ''Full Start'' = Inr (Series (map ts_cell (td raw_s)))"
    using setitem_getitem_other [OF set3 p2(1), of "''Full Start''"] g2s by simp
  \<comment> \<open>duration_hours\<close>
  define delta where "delta = map (\<lambda>(e, s). case (e, s) of (Some a, Some b) \<Rightarrow> Some (a - b) | _ \<Rightarrow> None)
      (zip (td raw_e) (td raw_s))"
  have sub: "map_err sub_datetime (zip (td raw_e) (td raw_s)) = Inr delta"
    unfolding delta_def using sub_datetime_total [of "td raw_e" "td raw_s"] ls le ok by simp
  obtain d4 where set4: "setitem d3 ''duration_hours'' (map hours_rounded delta) = Inr d4"
    using setitem_total [of "map hours_rounded delta" d3] ls le n1 p2(2) p3(2)
    by (auto simp: delta_def)
  have s4: "assign_duration d3 = Inr d4"
    unfolding assign_duration_Inr using g3e g3s sub set4 map_err_dt_value by blast
  note p4 = setitem_props [OF set4 p3(1)]
  have g4s: "getitem d4 ''Full Start'' = Inr (Series (map ts_cell (td raw_s)))"
    using setitem_getitem_other [OF set4 p3(1), of "''Full Start''"] g3s by simp
  have c4s: "column_is d4 ''Full Start'' (map ts_cell (td raw_s))"
    by (rule column_is_getitem [OF g4s])
  have c4e: "column_is d4 ''Full End'' (map ts_cell (td raw_e))"
    by (rule setitem_keeps_column [OF set4 p3(1) _ column_is_getitem [OF g3e]]) simp
  have c4d: "column_is d4 ''duration_hours'' (map hours_rounded delta)"
    by (rule p4(4))
  \<comment> \<open>month\<close>
  obtain d5 where set5: "setitem d4 ''month'' (map to_period_M (td raw_s)) = Inr d5"
    using setitem_total [of "map to_period_M (td raw_s)" d4] ls n1 p2(2) p3(2) p4(2) by auto
  have s5: "assign_from_start ''month'' to_period_M d4 = Inr d5"
    unfolding assign_from_start_Inr using g4s set5 map_err_dt_value by blast
  note p5 = setitem_props [OF set5 p4(1)]
  have g5s: "getitem d5 ''Full Start'' = Inr (Series (map ts_cell (td raw_s)))"
    using setitem_getitem_other [OF set5 p4(1), of "''Full Start''"] g4s by simp
  have c5e: "column_is d5 ''Full End'' (map ts_cell (td raw_e))"
    by (rule setitem_keeps_column [OF set5 p4(1) _ c4e]) simp
  have c5d: "column_is d5 ''duration_hours'' (map hours_rounded delta)"
    by (rule setitem_keeps_column [OF set5 p4(1) _ c4d]) simp
  have c5m: "column_is d5 ''month'' (map to_period_M (td raw_s))"
    by (rule p5(4))
  \<comment> \<open>weekday\<close>
  obtain d6 where set6: "setitem d5 ''weekday'' (map day_name (td raw_s)) = Inr d6"
    using setitem_total [of "map day_name (td raw_s)" d5] ls n1 p2(2) p3(2) p4(2) p5(2) by auto
  have s6: "assign_from_start ''weekday'' day_name d5 = Inr d6"
    unfolding assign_from_start_Inr using g5s set6 map_err_dt_value by blast
  note p6 = setitem_props [OF set6 p5(1)]
  have c6s: "column_is d6 ''Full Start'' (map ts_cell (td raw_s))"
    by (rule setitem_keeps_column [OF set6 p5(1) _ column_is_getitem [OF g5s]]) simp
  have c6e: "column_is d6 ''Full End'' (map ts_cell (td raw_e))"
    by (rule setitem_keeps_column [OF set6 p5(1) _ c5e]) simp
  have c6d: "column_is d6 ''duration_hours'' (map hours_rounded delta)"
    by (rule setitem_keeps_column [OF set6 p5(1) _ c5d]) simp
  have c6m: "column_is d6 ''month'' (map to_period_M (td raw_s))"
    by (rule setitem_keeps_column [OF set6 p5(1) _ c5m]) simp
  have c6w: "column_is d6 ''weekday'' (map day_name (td raw_s))"
    by (rule p6(4))
  have run: "run_stmts (normalize_log_stmts td) d0 = (None, d6)"
    by (simp add: normalize_log_stmts_def s1 s2 s3 s4 s5 s6)
  have dm: "map hours_rounded delta =
      map (\<lambda>(e, s). hours_rounded (case (e, s) of (Some a, Some b) \<Rightarrow> Some (a - b) | _ \<Rightarrow> None))
        (zip (td raw_e) (td raw_s))"
    by (simp add: delta_def case_prod_unfold comp_def)
  from run c6s c6e c6d c6m c6w show ?thesis
    unfolding dm by blast
qed

text \<open>
  C1. For a rectangular log table that has the columns \<^verbatim>\<open>Full Start\<close> and
  \<^verbatim>\<open>Full End\<close> (once each, after stripping the labels), with \<^verbatim>\<open>to_datetime\<close> giving
  one result per cell and no session longer than a 64-bit count of nanoseconds,
  normalization returns, and for every row: when both timestamps parse,
  \<^verbatim>\<open>duration_hours\<close> is a number of hundredths within half a hundredth of the
  difference in hours, \<^verbatim>\<open>month\<close> is the year and month of the start and \<^verbatim>\<open>weekday\<close>
  the English name of its day of the week; when a timestamp does not parse,
  \<^verbatim>\<open>duration_hours\<close> is missing for that row, and nothing is raised.
\<close>

theorem normalize_log_rows:
  fixes to_datetime :: "cell list \<Rightarrow> int option list"
  assumes "rectangular (h df)"
    and "getitem ((h df)\<lparr>columns := map strip (columns (h df))\<rparr>) ''Full Start'' = Inr (Series raw_start)"
    and "getitem ((h df)\<lparr>columns := map strip (columns (h df))\<rparr>) ''Full End'' = Inr (Series raw_end)"
    and "length (to_datetime raw_start) = length (rows (h df))"
    and "length (to_datetime raw_end) = length (rows (h df))"
    and "\<forall>n<length (rows (h df)). \<forall>s e.
           to_datetime raw_start ! n = Some s \<longrightarrow> to_datetime raw_end ! n = Some e
           \<longrightarrow> - (2 ^ 63) < e - s \<and> e - s < 2 ^ 63"
  shows "\<exists>h' dur mon wd.
           normalize_log_df to_datetime df h = (Inr df, h')
         \<and> column_is (h' df) ''Full Start'' (map ts_cell (to_datetime raw_start))
         \<and> column_is (h' df) ''Full End'' (map ts_cell (to_datetime raw_end))
         \<and> column_is (h' df) ''duration_hours'' dur
         \<and> column_is (h' df) ''month'' mon
         \<and> column_is (h' df) ''weekday'' wd
         \<and> (\<forall>n<length (rows (h df)).
              (case (to_datetime raw_start ! n, to_datetime raw_end ! n) of
                 (Some s, Some e) \<Rightarrow>
                   (\<exists>q k. dur ! n = CFloat q \<and> q = of_int k / 100
                      \<and> \<bar>q - of_int (e - s) / 3600000000000\<bar> \<le> 1 / 200)
               | _ \<Rightarrow> dur ! n = CNaN)
              \<and> (case to_datetime raw_start ! n of
                   Some s \<Rightarrow>
                     (case civil_from_days (days_of s) of (y, m, d) \<Rightarrow> mon ! n = CPeriod y m)
                     \<and> wd ! n = CStr (weekday_names ! nat ((days_of s + 3) mod 7))
                 | None \<Rightarrow> mon ! n = CNaT \<and> wd ! n = CNaN))"
proof -
  let ?S = "to_datetime raw_start" and ?E = "to_datetime raw_end"
  let ?dur = "map (\<lambda>(e, s). hours_rounded (case (e, s) of (Some a, Some b) \<Rightarrow> Some (a - b) | _ \<Rightarrow> None))
      (zip ?E ?S)"
  from normalize_log_run [OF assms] obtain d6 where
    run: "run_stmts (normalize_log_stmts to_datetime) (h df) = (None, d6)" and
    cs: "column_is d6 ''Full Start'' (map ts_cell ?S)" and
    ce: "column_is d6 ''Full End'' (map ts_cell ?E)" and
    cd: "column_is d6 ''duration_hours'' ?dur" and
    cm: "column_is d6 ''month'' (map to_period_M ?S)" and
    cw: "column_is d6 ''weekday'' (map day_name ?S)"
    by blast
  have ret: "normalize_log_df to_datetime df h = (Inr df, h(df := d6))"
    by (simp add: normalize_log_df_def run)
  have rows: "(case (?S ! n, ?E ! n) of
                 (Some s, Some e) \<Rightarrow>
                   (\<exists>q k. ?dur ! n = CFloat q \<and> q = of_int k / 100
                      \<and> \<bar>q - of_int (e - s) / 3600000000000\<bar> \<le> 1 / 200)
               | _ \<Rightarrow> ?dur ! n = CNaN)
              \<and> (case ?S ! n of
                   Some s \<Rightarrow>
                     (case civil_from_days (days_of s) of (y, m, d) \<Rightarrow> map to_period_M ?S ! n = CPeriod y m)
                     \<and> map day_name ?S ! n = CStr (weekday_names ! nat ((days_of s + 3) mod 7))
                 | None \<Rightarrow> map to_period_M ?S ! n = CNaT \<and> map day_name ?S ! n = CNaN)"
    if n: "n < length (rows (h df))" for n
  proof -
    have dn: "?dur ! n = hours_rounded (case (?E ! n, ?S ! n) of (Some a, Some b) \<Rightarrow> Some (a - b) | _ \<Rightarrow> None)"
      using n assms(4,5) by simp
    have round: "\<exists>q k. hours_rounded (Some (e - s)) = CFloat q \<and> q = of_int k / 100
        \<and> \<bar>q - of_int (e - s) / 3600000000000\<bar> \<le> 1 / 200" for e s :: int
      using np_round_2 [of "total_seconds (e - s) / 3600"]
      by (auto simp: hours_rounded_def total_seconds_def)
    have 1: "(case (?S ! n, ?E ! n) of
                 (Some s, Some e) \<Rightarrow>
                   (\<exists>q k. ?dur ! n = CFloat q \<and> q = of_int k / 100
                      \<and> \<bar>q - of_int (e - s) / 3600000000000\<bar> \<le> 1 / 200)
               | _ \<Rightarrow> ?dur ! n = CNaN)"
      unfolding dn using round by (auto simp: hours_rounded_def split: option.splits)
    have 2: "(case ?S ! n of
                   Some s \<Rightarrow>
                     (case civil_from_days (days_of s) of (y, m, d) \<Rightarrow> map to_period_M ?S ! n = CPeriod y m)
                     \<and> map day_name ?S ! n = CStr (weekday_names ! nat ((days_of s + 3) mod 7))
                 | None \<Rightarrow> map to_period_M ?S ! n = CNaT \<and> map day_name ?S ! n = CNaN)"
      using n assms(4) by (auto simp: to_period_M_def day_name_def split: option.splits prod.splits)
    from 1 2 show ?thesis by blast
  qed
  show ?thesis
    apply (rule exI [of _ "h(df := d6)"])
    apply (rule exI [of _ ?dur])
    apply (rule exI [of _ "map to_period_M ?S"])
    apply (rule exI [of _ "map day_name ?S"])
    using ret cs ce cd cm cw rows apply simp
    done
qed

theorem normalize_log_rows_witness:
  "rectangular scenario_a
   \<and> getitem (scenario_a\<lparr>columns := map strip (columns scenario_a)\<rparr>) ''Full Start''
       = Inr (Series [CStr ''2024-01-01T20:00:00'', CStr ''last night''])
   \<and> getitem (scenario_a\<lparr>columns := map strip (columns scenario_a)\<rparr>) ''Full End''
       = Inr (Series [CStr ''2024-01-01T22:30:00'', CStr ''2024-01-02T10:00:00''])
   \<and> iso_to_datetime [CStr ''2024-01-01T20:00:00'', CStr ''last night'']
       = [Some 1704139200000000000, None]
   \<and> iso_to_datetime [CStr ''2024-01-01T22:30:00'', CStr ''2024-01-02T10:00:00'']
       = [Some 1704148200000000000, Some 1704189600000000000]
   \<and> (\<exists>h' dur mon wd.
         normalize_log_df iso_to_datetime 0 (\<lambda>_. scenario_a) = (Inr 0, h')
       \<and> h' 0 = scenario_a_normalized
       \<and> column_is (h' 0) ''duration_hours'' dur
       \<and> column_is (h' 0) ''month'' mon
       \<and> column_is (h' 0) ''weekday'' wd
       \<and> (\<exists>q k. dur ! 0 = CFloat q \<and> q = of_int k / 100
                \<and> \<bar>q - of_int (1704148200000000000 - 1704139200000000000) / 3600000000000\<bar> \<le> 1 / 200)
       \<and> mon ! 0 = CPeriod 2024 1 \<and> wd ! 0 = CStr ''Monday''
       \<and> dur ! 1 = CNaN \<and> mon ! 1 = CNaT \<and> wd ! 1 = CNaN)
   \<and> period_str 2024 1 = ''2024-01''"
proof -
  let ?h = "\<lambda>_::nat. scenario_a"
  have r: "rectangular (?h 0)"
    by (simp add: rectangular_def scenario_a_def)
  have s: "getitem ((?h 0)\<lparr>columns := map strip (columns (?h 0))\<rparr>) ''Full Start''
       = Inr (Series [CStr ''2024-01-01T20:00:00'', CStr ''last night''])"
    by code_simp
  have e: "getitem ((?h 0)\<lparr>columns := map strip (columns (?h 0))\<rparr>) ''Full End''
       = Inr (Series [CStr ''2024-01-01T22:30:00'', CStr ''2024-01-02T10:00:00''])"
    by code_simp
  have ps: "iso_to_datetime [CStr ''2024-01-01T20:00:00'', CStr ''last night'']
       = [Some 1704139200000000000, None]"
    by code_simp
  have pe: "iso_to_datetime [CStr ''2024-01-01T22:30:00'', CStr ''2024-01-02T10:00:00'']
       = [Some 1704148200000000000, Some 1704189600000000000]"
    by code_simp
  have n: "length (rows (?h 0)) = 2"
    by (simp add: scenario_a_def)
  have ls: "length (iso_to_datetime [CStr ''2024-01-01T20:00:00'', CStr ''last night'']) = length (rows (?h 0))"
    by (simp add: ps n)
  have le: "length (iso_to_datetime [CStr ''2024-01-01T22:30:00'', CStr ''2024-01-02T10:00:00'']) = length (rows (?h 0))"
    by (simp add: pe n)
  have ok: "\<forall>n<length (rows (?h 0)). \<forall>s e.
           iso_to_datetime [CStr ''2024-01-01T20:00:00'', CStr ''last night''] ! n = Some s
           \<longrightarrow> iso_to_datetime [CStr ''2024-01-01T22:30:00'', CStr ''2024-01-02T10:00:00''] ! n = Some e
           \<longrightarrow> - (2 ^ 63) < e - s \<and> e - s < 2 ^ 63"
    unfolding ps pe n by (auto simp: less_Suc_eq numeral_2_eq_2)
  have c0: "civil_from_days (days_of 1704139200000000000) = (2024, 1, 1)"
    by code_simp
  have w0: "weekday_names ! nat ((days_of 1704139200000000000 + 3) mod 7) = ''Monday''"
    by code_simp
  have fin: "snd (normalize_log_df iso_to_datetime 0 ?h) 0 = scenario_a_normalized"
    by code_simp
  have p: "period_str 2024 1 = ''2024-01''"
    by code_simp
  from normalize_log_rows [of ?h 0, OF r s e ls le ok] obtain h' dur mon wd where
    ret: "normalize_log_df iso_to_datetime 0 ?h = (Inr 0, h')" and
    cd: "column_is (h' 0) ''duration_hours'' dur" and
    cm: "column_is (h' 0) ''month'' mon" and
    cw: "column_is (h' 0) ''weekday'' wd" and
    rows: "\<forall>n<length (rows (?h 0)).
              (case (iso_to_datetime [CStr ''2024-01-01T20:00:00'', CStr ''last night''] ! n,
                     iso_to_datetime [CStr ''2024-01-01T22:30:00'', CStr ''2024-01-02T10:00:00''] ! n) of
                 (Some s, Some e) \<Rightarrow>
                   (\<exists>q k. dur ! n = CFloat q \<and> q = of_int k / 100
                      \<and> \<bar>q - of_int (e - s) / 3600000000000\<bar> \<le> 1 / 200)
               | _ \<Rightarrow> dur ! n = CNaN)
              \<and> (case iso_to_datetime [CStr ''2024-01-01T20:00:00'', CStr ''last night''] ! n of
                   Some s \<Rightarrow>
                     (case civil_from_days (days_of s) of (y, m, d) \<Rightarrow> mon ! n = CPeriod y m)
                     \<and> wd ! n = CStr (weekday_names ! nat ((days_of s + 3) mod 7))
                 | None \<Rightarrow> mon ! n = CNaT \<and> wd ! n = CNaN)"
    by blast
  from rows have row0: "(\<exists>q k. dur ! 0 = CFloat q \<and> q = of_int k / 100
                \<and> \<bar>q - of_int (1704148200000000000 - 1704139200000000000) / 3600000000000\<bar> \<le> 1 / 200)
       \<and> mon ! 0 = CPeriod 2024 1 \<and> wd ! 0 = CStr ''Monday''"
    unfolding ps pe n using c0 w0 by (auto dest!: spec [of _ 0])
  from rows have row1: "dur ! 1 = CNaN \<and> mon ! 1 = CNaT \<and> wd ! 1 = CNaN"
    unfolding ps pe n by (auto dest!: spec [of _ 1])
  from fin ret have h0: "h' 0 = scenario_a_normalized"
    by simp
  have all: "\<exists>h' dur mon wd.
         normalize_log_df iso_to_datetime 0 (\<lambda>_. scenario_a) = (Inr 0, h')
       \<and> h' 0 = scenario_a_normalized
       \<and> column_is (h' 0) ''duration_hours'' dur
       \<and> column_is (h' 0) ''month'' mon
       \<and> column_is (h' 0) ''weekday'' wd
       \<and> (\<exists>q k. dur ! 0 = CFloat q \<and> q = of_int k / 100
                \<and> \<bar>q - of_int (1704148200000000000 - 1704139200000000000) / 3600000000000\<bar> \<le> 1 / 200)
       \<and> mon ! 0 = CPeriod 2024 1 \<and> wd ! 0 = CStr ''Monday''
       \<and> dur ! 1 = CNaN \<and> mon ! 1 = CNaT \<and> wd ! 1 = CNaN"
    apply (rule exI [of _ h'])
    apply (rule exI [of _ dur])
    apply (rule exI [of _ mon])
    apply (rule exI [of _ wd])
    apply (intro conjI)
              apply (rule ret)
             apply (rule h0)
            apply (rule cd)
           apply (rule cm)
          apply (rule cw)
         apply (rule row0 [THEN conjunct1])
        apply (rule row0 [THEN conjunct2, THEN conjunct1])
       apply (rule row0 [THEN conjunct2, THEN conjunct2])
      apply (rule row1 [THEN conjunct1])
     apply (rule row1 [THEN conjunct2, THEN conjunct1])
    apply (rule row1 [THEN conjunct2, THEN conjunct2])
    done
  from r s e ps pe all p show ?thesis
    by (intro conjI)
qed

section \<open>Normalization works in place\<close>

lemma setitem_columns:
  assumes "setitem d c vs = Inr d'"
  shows "columns d' = columns d @ (if c \<in> set (columns d) then [] else [c])"
proof -
  have "c \<in> set (columns d) \<longleftrightarrow> (\<exists>j<length (columns d). columns d ! j = c)"
    by (rule in_set_conv_nth)
  also have "\<dots> \<longleftrightarrow> set (get_loc (columns d) c) \<noteq> {}"
    unfolding set_get_loc by blast
  also have "\<dots> \<longleftrightarrow> get_loc (columns d) c \<noteq> []"
    by simp
  finally have "get_loc (columns d) c = [] \<longleftrightarrow> c \<notin> set (columns d)"
    by blast
  with assms show ?thesis
    by (auto simp: setitem_def split: if_splits list.splits)
qed

lemma getitem_Series_mem:
  assumes "getitem d c = Inr (Series xs)"
  shows "c \<in> set (columns d)"
proof -
  from assms obtain j where "get_loc (columns d) c = [j]"
    by (auto simp: getitem_Series_iff)
  then have "j \<in> set (get_loc (columns d) c)" by simp
  then show ?thesis by (auto simp: set_get_loc)
qed

lemma assign_to_datetime_columns:
  assumes "assign_to_datetime td c d = Inr d'"
  shows "columns d' = columns d"
proof -
  from assms obtain raw where "getitem d c = Inr (Series raw)"
    "setitem d c (map ts_cell (td raw)) = Inr d'"
    unfolding assign_to_datetime_Inr by blast
  with setitem_columns [of d c _ d'] getitem_Series_mem [of d c raw] show ?thesis
    by simp
qed

lemma assign_duration_columns:
  assumes "assign_duration d = Inr d'"
  shows "columns d' = columns d @ (if ''duration_hours'' \<in> set (columns d) then [] else [''duration_hours''])"
  using assms setitem_columns unfolding assign_duration_Inr by blast

lemma assign_from_start_columns:
  assumes "assign_from_start c f d = Inr d'"
  shows "columns d' = columns d @ (if c \<in> set (columns d) then [] else [c])"
  using assms setitem_columns unfolding assign_from_start_Inr by blast

lemma run_stmts_invariant:
  assumes "\<And>s d d'. s \<in> set ss \<Longrightarrow> I d \<Longrightarrow> s d = Inr d' \<Longrightarrow> I d'" and "I d"
  shows "I (snd (run_stmts ss d))"
  using assms
proof (induction ss arbitrary: d)
  case Nil
  then show ?case by simp
next
  case (Cons s ss)
  show ?case
  proof (cases "s d")
    case (Inl e)
    with Cons.prems(2) show ?thesis by simp
  next
    case (Inr d1)
    from Cons.prems(1) [of s d d1] Cons.prems(2) Inr have "I d1" by simp
    moreover have "I d'" if "s' \<in> set ss" "I d" "s' d = Inr d'" for s' d d'
      using Cons.prems(1) [of s' d d'] that by simp
    ultimately have "I (snd (run_stmts ss d1))" by (rule Cons.IH [rotated])
    with Inr show ?thesis by simp
  qed
qed

lemma normalize_log_columns:
  fixes td :: "cell list \<Rightarrow> int option list"
  defines "labels \<equiv> {''duration_hours'', ''month'', ''weekday''}"
  shows "\<exists>added. columns (snd (run_stmts (normalize_log_stmts td) d0)) = map strip (columns d0) @ added
           \<and> set added \<subseteq> labels"
proof -
  define I where "I d \<longleftrightarrow> (\<exists>added. columns d = map strip (columns d0) @ added \<and> set added \<subseteq> labels)" for d :: dataframe
  define rest where "rest = [assign_to_datetime td ''Full Start'', assign_to_datetime td ''Full End'',
      assign_duration, assign_from_start ''month'' to_period_M, assign_from_start ''weekday'' day_name]"
  have run: "run_stmts (normalize_log_stmts td) d0 = run_stmts rest (d0\<lparr>columns := map strip (columns d0)\<rparr>)"
    by (simp add: normalize_log_stmts_def rest_def strip_columns_def)
  have start: "I (d0\<lparr>columns := map strip (columns d0)\<rparr>)"
    by (simp add: I_def)
  have step: "I d'" if "s \<in> set rest" "I d" "s d = Inr d'" for s d d'
  proof -
    from that(2) obtain added where a: "columns d = map strip (columns d0) @ added" "set added \<subseteq> labels"
      unfolding I_def by blast
    from that(1) consider
      "s = assign_to_datetime td ''Full Start''" | "s = assign_to_datetime td ''Full End''"
      | "s = assign_duration" | "s = assign_from_start ''month'' to_period_M"
      | "s = assign_from_start ''weekday'' day_name"
      unfolding rest_def by auto
    then have "\<exists>x. columns d' = columns d @ x \<and> set x \<subseteq> labels"
    proof cases
      case 1
      with that(3) assign_to_datetime_columns [of td "''Full Start''" d d'] show ?thesis by simp
    next
      case 2
      with that(3) assign_to_datetime_columns [of td "''Full End''" d d'] show ?thesis by simp
    next
      case 3
      with that(3) assign_duration_columns [of d d'] show ?thesis by (simp add: labels_def)
    next
      case 4
      with that(3) assign_from_start_columns [of "''month''" to_period_M d d'] show ?thesis
        by (simp add: labels_def)
    next
      case 5
      with that(3) assign_from_start_columns [of "''weekday''" day_name d d'] show ?thesis
        by (simp add: labels_def)
    qed
    then obtain x where "columns d' = columns d @ x" "set x \<subseteq> labels" by blast
    with a show ?thesis
      unfolding I_def by (intro exI [of _ "added @ x"]) simp
  qed
  have "I (snd (run_stmts rest (d0\<lparr>columns := map strip (columns d0)\<rparr>)))"
    by (rule run_stmts_invariant [of rest I, OF step start])
  then show ?thesis
    unfolding run I_def .
qed

lemma normalize_log_labels:
  assumes "run_stmts (normalize_log_stmts td) d0 = (None, d6)"
  shows "{''duration_hours'', ''month'', ''weekday''} \<subseteq> set (columns d6)"
proof -
  from assms have "\<exists>d3 d4 d5. assign_duration d3 = Inr d4
      \<and> assign_from_start ''month'' to_period_M d4 = Inr d5
      \<and> assign_from_start ''weekday'' day_name d5 = Inr d6"
    unfolding normalize_log_stmts_def run_stmts_Cons_None run_stmts_Nil_None
    by (elim exE conjE) auto
  then obtain d3 d4 d5 where
    s4: "assign_duration d3 = Inr d4" and
    s5: "assign_from_start ''month'' to_period_M d4 = Inr d5" and
    s6: "assign_from_start ''weekday'' day_name d5 = Inr d6"
    by blast
  have "''duration_hours'' \<in> set (columns d4)"
    using assign_duration_columns [OF s4] by (simp split: if_splits)
  moreover have "''month'' \<in> set (columns d5)" "set (columns d4) \<subseteq> set (columns d5)"
    using assign_from_start_columns [OF s5] by (simp_all split: if_splits)
  moreover have "''weekday'' \<in> set (columns d6)" "set (columns d5) \<subseteq> set (columns d6)"
    using assign_from_start_columns [OF s6] by (simp_all split: if_splits)
  ultimately show ?thesis by blast
qed

text \<open>
  C9, as the code has it. Normalization works in place and returns the object it was
  given: after the call the table object itself carries the stripped labels, followed
  by those of \<^verbatim>\<open>duration_hours\<close>, \<^verbatim>\<open>month\<close> and \<^verbatim>\<open>weekday\<close> that were added (all three
  are present when normalization returns); no other object changes.
\<close>

theorem normalize_log_in_place:
  assumes "normalize_log_df to_datetime df h = (r, h')"
  shows "(\<forall>q. q \<noteq> df \<longrightarrow> h' q = h q)
       \<and> (\<exists>added. columns (h' df) = map strip (columns (h df)) @ added
                 \<and> set added \<subseteq> {''duration_hours'', ''month'', ''weekday''})
       \<and> (\<forall>p. r = Inr p \<longrightarrow>
             p = df \<and> {''duration_hours'', ''month'', ''weekday''} \<subseteq> set (columns (h' df)))"
proof -
  obtain e d where run: "run_stmts (normalize_log_stmts to_datetime) (h df) = (e, d)"
    by (cases "run_stmts (normalize_log_stmts to_datetime) (h df)")
  with assms have h': "h' = h(df := d)"
    by (cases e) (auto simp: normalize_log_df_def)
  have 1: "\<forall>q. q \<noteq> df \<longrightarrow> h' q = h q"
    by (simp add: h')
  have 2: "\<exists>added. columns (h' df) = map strip (columns (h df)) @ added
                 \<and> set added \<subseteq> {''duration_hours'', ''month'', ''weekday''}"
    using normalize_log_columns [of to_datetime "h df"] run by (simp add: h')
  have 3: "p = df \<and> {''duration_hours'', ''month'', ''weekday''} \<subseteq> set (columns (h' df))"
    if "r = Inr p" for p
  proof -
    from that assms run have "e = None \<and> p = df"
      by (cases e) (simp_all add: normalize_log_df_def)
    with run normalize_log_labels [of to_datetime "h df" d] show ?thesis
      by (simp add: h')
  qed
  from 1 2 3 show ?thesis by blast
qed

theorem normalize_log_in_place_witness:
  "normalize_log_df iso_to_datetime 0 scenario_heap = (Inr 0, scenario_heap(0 := scenario_a_normalized))
   \<and> columns (scenario_heap 0) = ['' GAME'', ''Full Start'', ''Full End '']
   \<and> columns ((scenario_heap(0 := scenario_a_normalized)) 0) =
       map strip (columns (scenario_heap 0)) @ [''duration_hours'', ''month'', ''weekday'']
   \<and> (scenario_heap(0 := scenario_a_normalized)) 1 = scenario_heap 1
   \<and> {''duration_hours'', ''month'', ''weekday''} \<subseteq> set (columns ((scenario_heap(0 := scenario_a_normalized)) 0))"
proof -
  have f: "fst (normalize_log_df iso_to_datetime 0 scenario_heap) = Inr 0"
    by code_simp
  have d: "snd (normalize_log_df iso_to_datetime 0 scenario_heap) 0 = scenario_a_normalized"
    by code_simp
  have run: "normalize_log_df iso_to_datetime 0 scenario_heap
      = (Inr 0, snd (normalize_log_df iso_to_datetime 0 scenario_heap))"
    using f by (simp add: prod_eq_iff)
  note t = normalize_log_in_place [OF run]
  from t have same: "\<forall>q. q \<noteq> 0 \<longrightarrow> snd (normalize_log_df iso_to_datetime 0 scenario_heap) q = scenario_heap q"
    by blast
  have heap: "snd (normalize_log_df iso_to_datetime 0 scenario_heap) = scenario_heap(0 := scenario_a_normalized)"
    using same d by (auto simp: fun_eq_iff)
  have c: "columns (scenario_heap 0) = ['' GAME'', ''Full Start'', ''Full End '']"
    by (simp add: scenario_heap_def scenario_a_def)
  have c': "columns ((scenario_heap(0 := scenario_a_normalized)) 0) =
       map strip (columns (scenario_heap 0)) @ [''duration_hours'', ''month'', ''weekday'']"
    by code_simp
  from t have l: "{''duration_hours'', ''month'', ''weekday''} \<subseteq> set (columns ((scenario_heap(0 := scenario_a_normalized)) 0))"
    unfolding heap by blast
  from same have "\<forall>q. q \<noteq> 0 \<longrightarrow> (scenario_heap(0 := scenario_a_normalized)) q = scenario_heap q"
    unfolding heap .
  then have s: "(scenario_heap(0 := scenario_a_normalized)) 1 = scenario_heap 1"
    by simp
  from run heap c c' s l show ?thesis
    by simp
qed

theorem normalize_log_copy_counterexample:
  "fst (normalize_log_df iso_to_datetime 0 scenario_heap) = Inr 0
   \<and> columns (scenario_heap 0) = ['' GAME'', ''Full Start'', ''Full End '']
   \<and> columns (snd (normalize_log_df iso_to_datetime 0 scenario_heap) 0)
       = [''GAME'', ''Full Start'', ''Full End'', ''duration_hours'', ''month'', ''weekday'']
   \<and> snd (normalize_log_df iso_to_datetime 0 scenario_heap) 0 \<noteq> scenario_heap 0"
proof -
  have f: "fst (normalize_log_df iso_to_datetime 0 scenario_heap) = Inr 0"
    by code_simp
  have c: "columns (scenario_heap 0) = ['' GAME'', ''Full Start'', ''Full End '']"
    by code_simp
  have c': "columns (snd (normalize_log_df iso_to_datetime 0 scenario_heap) 0)
       = [''GAME'', ''Full Start'', ''Full End'', ''duration_hours'', ''month'', ''weekday'']"
    by code_simp
  from c c' have "snd (normalize_log_df iso_to_datetime 0 scenario_heap) 0 \<noteq> scenario_heap 0"
    by auto
  with f c c' show ?thesis by blast
qed

section \<open>The top-games rollup\<close>

lemma set_unique [simp]: "set (unique xs) = set xs"
  by (simp add: unique_def)

lemma distinct_unique [simp]: "distinct (unique xs)"
  by (simp add: unique_def)

lemma length_unique: "length (unique xs) = card (set xs)"
  using distinct_card [of "unique xs"] by simp

lemma sort_values_desc_mset:
  assumes "sorts argsort"
  shows "mset (sort_values_desc argsort kvs) = mset kvs"
proof -
  let ?r = "rev kvs"
  let ?idx = "argsort (map snd ?r)"
  from assms have "mset ?idx = mset [0..<length ?r]"
    unfolding sorts_def by (metis length_map)
  then have "mset (map ((!) ?r) ?idx) = mset (map ((!) ?r) [0..<length ?r])"
    by (metis mset_map)
  also have "\<dots> = mset ?r"
    by (simp only: map_nth)
  finally show ?thesis
    by (simp add: sort_values_desc_def Let_def)
qed

lemma sort_values_desc_sorted:
  assumes "sorts argsort"
  shows "sorted (rev (map snd (sort_values_desc argsort kvs)))"
proof -
  let ?r = "rev kvs"
  let ?idx = "argsort (map snd ?r)"
  from assms have m: "mset ?idx = mset [0..<length (map snd ?r)]"
    and s: "sorted (map (\<lambda>i. map snd ?r ! i) ?idx)"
    unfolding sorts_def by blast+
  from m have "set ?idx = set [0..<length (map snd ?r)]"
    by (rule mset_eq_setD)
  then have "\<forall>i\<in>set ?idx. i < length ?r"
    by simp
  then have "map (\<lambda>i. map snd ?r ! i) ?idx = map snd (map ((!) ?r) ?idx)"
    by simp
  with s have "sorted (map snd (map ((!) ?r) ?idx))"
    by simp
  then show ?thesis
    by (simp add: sort_values_desc_def Let_def rev_map)
qed

lemma insort_key_map:
  "map g (insort_key (\<lambda>x. f (g x)) x ys) = insort_key f (g x) (map g ys)"
  by (induction ys) simp_all

lemma sort_key_map:
  "map g (sort_key (\<lambda>x. f (g x)) xs) = sort_key f (map g xs)"
  by (induction xs) (simp_all add: insort_key_map)

lemma insort_key_cong_set:
  assumes "f x = h x" and "\<forall>y\<in>set ys. f y = h y"
  shows "insort_key f x ys = insort_key h x ys"
  using assms by (induction ys) simp_all

lemma sort_key_cong_set:
  assumes "\<forall>x\<in>set xs. f x = h x"
  shows "sort_key f xs = sort_key h xs"
  using assms
proof (induction xs)
  case Nil
  then show ?case by simp
next
  case (Cons x xs)
  then have "sort_key f xs = sort_key h xs" by simp
  moreover have "insort_key f x (sort_key h xs) = insort_key h x (sort_key h xs)"
    using Cons.prems by (intro insort_key_cong_set) simp_all
  ultimately show ?case by simp
qed

lemma sort_values_desc_insertion:
  "sort_values_desc insertion_argsort kvs = rev (sort_key snd (rev kvs))"
proof -
  let ?r = "rev kvs"
  have "sort_key (\<lambda>i. map snd ?r ! i) [0..<length ?r] = sort_key (\<lambda>i. snd (?r ! i)) [0..<length ?r]"
    by (rule sort_key_cong_set) simp
  then have "map ((!) ?r) (insertion_argsort (map snd ?r)) = sort_key snd (map ((!) ?r) [0..<length ?r])"
    by (simp add: insertion_argsort_def sort_key_map)
  also have "\<dots> = sort_key snd ?r"
    by (simp only: map_nth)
  finally show ?thesis
    by (simp add: sort_values_desc_def Let_def)
qed

lemma sort_values_desc_ties:
  "filter (\<lambda>kv. snd kv = v) (sort_values_desc insertion_argsort kvs) = filter (\<lambda>kv. snd kv = v) kvs"
  by (simp add: sort_values_desc_insertion rev_filter [symmetric] sort_key_stable)

lemma sorted_wrt_filter_nth:
  assumes "sorted_wrt R (filter P xs)" and "a < b" and "b < length xs" and "P (xs ! a)" and "P (xs ! b)"
  shows "R (xs ! a) (xs ! b)"
  using assms
proof (induction xs arbitrary: a b)
  case Nil
  then show ?case by simp
next
  case (Cons x xs)
  from Cons.prems(2) obtain b' where b: "b = Suc b'" by (cases b) auto
  show ?case
  proof (cases a)
    case 0
    with Cons.prems b have "P x" "xs ! b' \<in> set (filter P xs)"
      by auto
    with Cons.prems(1) 0 b show ?thesis by auto
  next
    case (Suc a')
    from Cons.prems(1) have "sorted_wrt R (filter P xs)"
      by (cases "P x") auto
    from Cons.IH [OF this, of a' b'] Cons.prems Suc b show ?thesis by simp
  qed
qed

lemma groupby_sum_keys:
  "map fst (groupby_sum ord kvs) = sort_key ord (unique (map fst kvs))"
  by (simp add: groupby_sum_def comp_def)

lemma groupby_sum_entry:
  assumes "(k, s) \<in> set (groupby_sum ord kvs)"
  shows "k \<in> fst ` set kvs \<and> s = nansum (map snd (filter (\<lambda>kv. fst kv = k) kvs))"
  using assms by (auto simp: groupby_sum_def)

lemma groupby_sum_has:
  assumes "k \<in> fst ` set kvs"
  shows "(k, nansum (map snd (filter (\<lambda>kv. fst kv = k) kvs))) \<in> set (groupby_sum ord kvs)"
  using assms by (auto simp: groupby_sum_def)

lemma groupby_sum_distinct: "distinct (map fst (groupby_sum ord kvs))"
  by (simp add: groupby_sum_keys)

lemma groupby_sum_length: "length (groupby_sum ord kvs) = card (fst ` set kvs)"
  using length_unique [of "map fst kvs"] by (simp add: groupby_sum_def)

lemma groupby_sum_sorted: "sorted (map (\<lambda>kv. ord (fst kv)) (groupby_sum ord kvs))"
proof -
  have "map (\<lambda>kv. ord (fst kv)) (groupby_sum ord kvs) = map ord (map fst (groupby_sum ord kvs))"
    by simp
  also have "\<dots> = map ord (sort_key ord (unique (map fst kvs)))"
    by (simp only: groupby_sum_keys)
  finally show ?thesis by simp
qed

lemma map_err_length:
  assumes "map_err f xs = Inr ys"
  shows "length ys = length xs"
  using assms by (simp add: map_err_Inr_iff list_all2_lengthD)

lemma getitem_Series_length:
  assumes "getitem df c = Inr (Series xs)"
  shows "length xs = length (rows df)"
  using assms by (auto simp: getitem_Series_iff)

lemma top_games_eq:
  assumes "getitem df ''GAME'' = Inr (Series gs)"
    and "getitem df ''duration_hours'' = Inr (Series cs)"
    and "map_err to_float cs = Inr ds"
  shows "top_games argsort df =
     Inr (take 15 (sort_values_desc argsort
        (groupby_sum cell_key (filter (\<lambda>kv. \<not> isna (fst kv)) (zip gs ds)))))"
  using assms by (simp add: top_games_def)

lemma titled_keys:
  assumes "length gs = length ds"
  shows "fst ` set (filter (\<lambda>kv. \<not> isna (fst kv)) (zip gs ds)) = {g \<in> set gs. \<not> isna g}"
proof -
  have "set gs = fst ` set (zip gs ds)"
    using assms by (metis map_fst_zip set_map)
  then show ?thesis by auto
qed

lemma titled_sum:
  assumes "\<not> isna g"
  shows "filter (\<lambda>kv. fst kv = g) (filter (\<lambda>kv. \<not> isna (fst kv)) kvs) = filter (\<lambda>kv. fst kv = g) kvs"
  using assms by (induction kvs) auto

lemma top_games_props:
  fixes argsort :: "rat list \<Rightarrow> nat list"
  assumes srt: "sorts argsort"
    and len: "length gs = length ds"
  defines "out \<equiv> take 15 (sort_values_desc argsort
        (groupby_sum cell_key (filter (\<lambda>kv. \<not> isna (fst kv)) (zip gs ds))))"
  shows "length out = min 15 (card {g \<in> set gs. \<not> isna g})"
    and "distinct (map fst out)"
    and "\<forall>(g, s)\<in>set out. g \<in> set gs \<and> \<not> isna g
           \<and> s = nansum (map snd (filter (\<lambda>kv. fst kv = g) (zip gs ds)))"
    and "sorted (rev (map snd out))"
    and "\<forall>g\<in>set gs. \<not> isna g \<longrightarrow> g \<notin> fst ` set out \<longrightarrow>
           (\<forall>s\<in>snd ` set out. nansum (map snd (filter (\<lambda>kv. fst kv = g) (zip gs ds))) \<le> s)"
proof -
  define kvs where "kvs = filter (\<lambda>kv. \<not> isna (fst kv)) (zip gs ds)"
  define G where "G = groupby_sum cell_key kvs"
  define S where "S = sort_values_desc argsort G"
  have out: "out = take 15 S"
    by (simp add: out_def S_def G_def kvs_def)
  have keys: "fst ` set kvs = {g \<in> set gs. \<not> isna g}"
    unfolding kvs_def by (rule titled_keys [OF len])
  have mS: "mset S = mset G"
    unfolding S_def by (rule sort_values_desc_mset [OF srt])
  then have sS: "set S = set G"
    by (rule mset_eq_setD)
  have lS: "length S = card {g \<in> set gs. \<not> isna g}"
    using mset_eq_length [OF mS] by (simp add: G_def groupby_sum_length keys)
  show "length out = min 15 (card {g \<in> set gs. \<not> isna g})"
    by (simp add: out lS min.commute)
  have "mset (map fst S) = mset (map fst G)"
    using mS by (metis mset_map)
  then have "distinct (map fst S)"
    using mset_eq_imp_distinct_iff [of "map fst S" "map fst G"]
    by (simp add: G_def groupby_sum_distinct)
  then show "distinct (map fst out)"
    by (simp add: out take_map [symmetric])
  have entry: "g \<in> set gs \<and> \<not> isna g \<and> s = nansum (map snd (filter (\<lambda>kv. fst kv = g) (zip gs ds)))"
    if "(g, s) \<in> set G" for g s
  proof -
    from that have a: "g \<in> fst ` set kvs" and b: "s = nansum (map snd (filter (\<lambda>kv. fst kv = g) kvs))"
      unfolding G_def by (auto dest: groupby_sum_entry)
    from a keys have g: "g \<in> set gs" "\<not> isna g" by auto
    have "filter (\<lambda>kv. fst kv = g) kvs = filter (\<lambda>kv. fst kv = g) (zip gs ds)"
      unfolding kvs_def by (rule titled_sum [OF g(2)])
    with b g show ?thesis
      by (simp only: simp_thms)
  qed
  have sub: "set out \<subseteq> set G"
    unfolding out using set_take_subset [of 15 S] sS by simp
  show "\<forall>(g, s)\<in>set out. g \<in> set gs \<and> \<not> isna g
           \<and> s = nansum (map snd (filter (\<lambda>kv. fst kv = g) (zip gs ds)))"
    using sub entry by auto
  have desc: "sorted (rev (map snd S))"
    unfolding S_def by (rule sort_values_desc_sorted [OF srt])
  have "rev (map snd out) = drop (length S - 15) (rev (map snd S))"
    by (simp add: out take_map [symmetric] rev_take)
  with desc show "sorted (rev (map snd out))"
    by (simp add: sorted_wrt_drop)
  have split: "S = out @ drop 15 S"
    by (simp add: out)
  from desc have "sorted_wrt (\<lambda>x y. y \<le> x) (map snd S)"
    by (simp add: sorted_wrt_rev)
  then have "sorted_wrt (\<lambda>x y. snd y \<le> snd x) (out @ drop 15 S)"
    using split by (simp add: sorted_wrt_map)
  then have cross: "\<forall>x\<in>set out. \<forall>y\<in>set (drop 15 S). snd y \<le> snd x"
    by (simp add: sorted_wrt_append)
  show "\<forall>g\<in>set gs. \<not> isna g \<longrightarrow> g \<notin> fst ` set out \<longrightarrow>
           (\<forall>s\<in>snd ` set out. nansum (map snd (filter (\<lambda>kv. fst kv = g) (zip gs ds))) \<le> s)"
  proof (intro ballI impI)
    fix g s
    assume g: "g \<in> set gs" "\<not> isna g" "g \<notin> fst ` set out" and s: "s \<in> snd ` set out"
    let ?t = "nansum (map snd (filter (\<lambda>kv. fst kv = g) (zip gs ds)))"
    from g keys have "g \<in> fst ` set kvs" by simp
    have same: "filter (\<lambda>kv. fst kv = g) kvs = filter (\<lambda>kv. fst kv = g) (zip gs ds)"
      unfolding kvs_def by (rule titled_sum [OF g(2)])
    from groupby_sum_has [OF \<open>g \<in> fst ` set kvs\<close>, of cell_key] have "(g, ?t) \<in> set G"
      unfolding G_def same .
    with sS have "(g, ?t) \<in> set S"
      by simp
    then have "(g, ?t) \<in> set out \<or> (g, ?t) \<in> set (drop 15 S)"
      by (subst (asm) split) simp
    moreover have "(g, ?t) \<notin> set out"
      using g(3) by (metis fst_conv image_eqI)
    ultimately have d: "(g, ?t) \<in> set (drop 15 S)"
      by blast
    from s obtain x where x: "x \<in> set out" "s = snd x"
      by blast
    from cross x(1) d have "snd (g, ?t) \<le> snd x"
      by blast
    then show "?t \<le> s"
      by (simp add: x(2))
  qed
qed

lemma top_games_ties:
  fixes gs :: "cell list" and ds :: "rat option list"
  defines "out \<equiv> take 15 (sort_values_desc insertion_argsort
        (groupby_sum cell_key (filter (\<lambda>kv. \<not> isna (fst kv)) (zip gs ds))))"
  assumes "a < b" and "b < length out" and "snd (out ! a) = snd (out ! b)"
  shows "cell_key (fst (out ! a)) \<le> cell_key (fst (out ! b))"
proof -
  define G where "G = groupby_sum cell_key (filter (\<lambda>kv. \<not> isna (fst kv)) (zip gs ds))"
  define S where "S = sort_values_desc insertion_argsort G"
  define v where "v = snd (out ! b)"
  have out: "out = take 15 S"
    by (simp add: out_def S_def G_def)
  from assms(2,3) have b: "b < length S" "b < 15" and a: "a < 15"
    by (simp_all add: out)
  have na: "out ! a = S ! a" and nb: "out ! b = S ! b"
    using a b by (simp_all add: out)
  have "sorted (map (\<lambda>kv. cell_key (fst kv)) G)"
    unfolding G_def by (rule groupby_sum_sorted)
  then have "sorted_wrt (\<lambda>x y. cell_key (fst x) \<le> cell_key (fst y)) G"
    by (simp add: sorted_map)
  then have "sorted_wrt (\<lambda>x y. cell_key (fst x) \<le> cell_key (fst y)) (filter (\<lambda>kv. snd kv = v) G)"
    by (rule sorted_wrt_filter)
  then have "sorted_wrt (\<lambda>x y. cell_key (fst x) \<le> cell_key (fst y)) (filter (\<lambda>kv. snd kv = v) S)"
    by (simp add: S_def sort_values_desc_ties)
  moreover have "snd (S ! a) = v"
    unfolding v_def na [symmetric] by (rule assms(4))
  moreover have "snd (S ! b) = v"
    unfolding v_def nb [symmetric] by (rule refl)
  ultimately have "cell_key (fst (S ! a)) \<le> cell_key (fst (S ! b))"
    using sorted_wrt_filter_nth [of "\<lambda>x y. cell_key (fst x) \<le> cell_key (fst y)"
        "\<lambda>kv. snd kv = v" S a b] assms(2) b(1)
    by blast
  then show ?thesis
    unfolding na nb .
qed

text \<open>
  C5, as the code has it. With the columns \<^verbatim>\<open>GAME\<close> and \<^verbatim>\<open>duration_hours\<close> in place
  the rollup returns: one entry per distinct title that is not missing, with the sum
  of the title's hours; at most 15 entries, fewer only when there are fewer titles;
  in descending order of the sums; and no title left out has a larger sum than one
  that is kept. Equal sums are not in order of first appearance: the groups reach the
  sort in ascending order of title, and a sort that keeps equal values in place
  (numpy's on short arrays) leaves them so.
\<close>

theorem top_games_rollup:
  assumes "sorts argsort"
    and "getitem df ''GAME'' = Inr (Series gs)"
    and "getitem df ''duration_hours'' = Inr (Series cs)"
    and "map_err to_float cs = Inr ds"
  shows "\<exists>out. top_games argsort df = Inr out
       \<and> length out \<le> 15
       \<and> length out = min 15 (card {g \<in> set gs. \<not> isna g})
       \<and> distinct (map fst out)
       \<and> (\<forall>(g, s)\<in>set out. g \<in> set gs \<and> \<not> isna g
             \<and> s = nansum (map snd (filter (\<lambda>kv. fst kv = g) (zip gs ds))))
       \<and> sorted (rev (map snd out))
       \<and> (\<forall>g\<in>set gs. \<not> isna g \<longrightarrow> g \<notin> fst ` set out \<longrightarrow>
             (\<forall>s\<in>snd ` set out. nansum (map snd (filter (\<lambda>kv. fst kv = g) (zip gs ds))) \<le> s))
       \<and> (argsort = insertion_argsort \<longrightarrow>
             (\<forall>a b. a < b \<longrightarrow> b < length out \<longrightarrow> snd (out ! a) = snd (out ! b)
                \<longrightarrow> cell_key (fst (out ! a)) \<le> cell_key (fst (out ! b))))"
proof -
  let ?out = "take 15 (sort_values_desc argsort
        (groupby_sum cell_key (filter (\<lambda>kv. \<not> isna (fst kv)) (zip gs ds))))"
  have len: "length gs = length ds"
    using getitem_Series_length [OF assms(2)] getitem_Series_length [OF assms(3)]
      map_err_length [OF assms(4)] by simp
  have ret: "top_games argsort df = Inr ?out"
    by (rule top_games_eq [OF assms(2,3,4)])
  note p = top_games_props [OF assms(1) len]
  have ties: "argsort = insertion_argsort \<longrightarrow>
             (\<forall>a b. a < b \<longrightarrow> b < length ?out \<longrightarrow> snd (?out ! a) = snd (?out ! b)
                \<longrightarrow> cell_key (fst (?out ! a)) \<le> cell_key (fst (?out ! b)))"
    using top_games_ties [of _ _ gs ds] by blast
  have l15: "length ?out \<le> 15"
    by simp
  show ?thesis
    apply (rule exI [of _ ?out])
    apply (intro conjI)
           apply (rule ret)
          apply (rule l15)
         apply (rule p(1))
        apply (rule p(2))
       apply (rule p(3))
      apply (rule p(4))
     apply (rule p(5))
    apply (rule ties)
    done
qed

theorem top_games_rollup_witness:
  "sorts insertion_argsort
   \<and> getitem tie_rows ''GAME''
       = Inr (Series [CStr ''Zelda'', CStr ''Asteroids'', CStr ''Doom'', CNaN, CStr ''Zelda''])
   \<and> getitem tie_rows ''duration_hours''
       = Inr (Series [CFloat 1, CFloat 1, CFloat 3, CFloat 5, CNaN])
   \<and> map_err to_float [CFloat 1, CFloat 1, CFloat 3, CFloat 5, CNaN]
       = Inr [Some 1, Some 1, Some 3, Some 5, None]
   \<and> top_games insertion_argsort tie_rows
       = Inr [(CStr ''Doom'', 3), (CStr ''Asteroids'', 1), (CStr ''Zelda'', 1)]
   \<and> length [(CStr ''Doom'', 3 :: rat), (CStr ''Asteroids'', 1), (CStr ''Zelda'', 1)]
       = min 15 (card {g \<in> set [CStr ''Zelda'', CStr ''Asteroids'', CStr ''Doom'', CNaN, CStr ''Zelda'']. \<not> isna g})
   \<and> sorted (rev (map snd [(CStr ''Doom'', 3 :: rat), (CStr ''Asteroids'', 1), (CStr ''Zelda'', 1)]))"
proof -
  have g: "getitem tie_rows ''GAME''
       = Inr (Series [CStr ''Zelda'', CStr ''Asteroids'', CStr ''Doom'', CNaN, CStr ''Zelda''])"
    by code_simp
  have c: "getitem tie_rows ''duration_hours''
       = Inr (Series [CFloat 1, CFloat 1, CFloat 3, CFloat 5, CNaN])"
    by code_simp
  have d: "map_err to_float [CFloat 1, CFloat 1, CFloat 3, CFloat 5, CNaN]
       = Inr [Some 1, Some 1, Some 3, Some 5, None]"
    by simp
  have t: "top_games insertion_argsort tie_rows
       = Inr [(CStr ''Doom'', 3), (CStr ''Asteroids'', 1), (CStr ''Zelda'', 1)]"
    by code_simp
  from top_games_rollup [OF sorts_insertion_argsort g c d] t
  have "length [(CStr ''Doom'', 3 :: rat), (CStr ''Asteroids'', 1), (CStr ''Zelda'', 1)]
       = min 15 (card {g \<in> set [CStr ''Zelda'', CStr ''Asteroids'', CStr ''Doom'', CNaN, CStr ''Zelda'']. \<not> isna g})
     \<and> sorted (rev (map snd [(CStr ''Doom'', 3 :: rat), (CStr ''Asteroids'', 1), (CStr ''Zelda'', 1)]))"
    by auto
  with sorts_insertion_argsort g c d t show ?thesis
    by blast
qed

theorem top_games_first_seen_counterexample:
  "getitem tie_rows ''GAME''
     = Inr (Series [CStr ''Zelda'', CStr ''Asteroids'', CStr ''Doom'', CNaN, CStr ''Zelda''])
   \<and> top_games insertion_argsort tie_rows
     = Inr [(CStr ''Doom'', 3), (CStr ''Asteroids'', 1), (CStr ''Zelda'', 1)]"
proof -
  have g: "getitem tie_rows ''GAME''
       = Inr (Series [CStr ''Zelda'', CStr ''Asteroids'', CStr ''Doom'', CNaN, CStr ''Zelda''])"
    by code_simp
  have t: "top_games insertion_argsort tie_rows
       = Inr [(CStr ''Doom'', 3), (CStr ''Asteroids'', 1), (CStr ''Zelda'', 1)]"
    by code_simp
  from g t show ?thesis by blast
qed

section \<open>Rows without a title\<close>

lemma map_err_filter:
  assumes "map_err f (map g rs) = Inr ys"
  shows "map_err f (map g (filter Q rs)) = Inr (map snd (filter (\<lambda>p. Q (fst p)) (zip rs ys)))"
  using assms
proof (induction rs arbitrary: ys)
  case Nil
  then show ?case by simp
next
  case (Cons r rs)
  from Cons.prems obtain y ys' where y: "f (g r) = Inr y" "map_err f (map g rs) = Inr ys'" "ys = y # ys'"
    by (auto simp: bind_err_eq_Inr)
  from Cons.IH [OF y(2)] y(1,3) show ?case
    by simp
qed

lemma nansum_split:
  "nansum (map snd zs) =
     nansum (map snd (filter P zs)) + nansum (map snd (filter (\<lambda>z. \<not> P z) zs))"
  by (induction zs) (simp_all add: nansum_def)

lemma titled_pairs:
  assumes "length rs = length ds"
  shows "filter (\<lambda>kv. \<not> isna (fst kv))
           (zip (map g (filter (\<lambda>r. \<not> isna (g r)) rs))
                (map snd (filter (\<lambda>p. \<not> isna (g (fst p))) (zip rs ds))))
         = filter (\<lambda>kv. \<not> isna (fst kv)) (zip (map g rs) ds)"
  using assms by (induction rs ds rule: list_induct2) simp_all

lemma getitem_filter_rows:
  assumes "get_loc (columns df) c = [i]"
  shows "getitem (df\<lparr>rows := filter Q (rows df)\<rparr>) c = Inr (Series (map (\<lambda>r. r ! i) (filter Q (rows df))))"
  using assms by (simp add: getitem_def)

lemma metrics_of:
  assumes "getitem df ''duration_hours'' = Inr (Series cs)" and "map_err to_float cs = Inr ds"
  shows "\<exists>m. show_summary_metrics df = Inr m \<and> total_hours m = nansum ds
           \<and> total_sessions m = length (rows df)"
proof -
  have s: "col_sum df ''duration_hours'' = Inr (Scalar (nansum ds))"
    by (simp add: col_sum_def assms)
  have a: "col_mean df ''duration_hours'' = Inr (Scalar (nanmean ds))"
    by (simp add: col_mean_def assms)
  have "\<exists>u. col_nunique df ''GAME'' = Inr u" if "''GAME'' \<in> set (columns df)"
  proof -
    from that have "set (get_loc (columns df) ''GAME'') \<noteq> {}"
      unfolding set_get_loc by (auto simp: in_set_conv_nth)
    then have "get_loc (columns df) ''GAME'' \<noteq> []"
      by auto
    then have "\<exists>it. getitem df ''GAME'' = Inr it"
      by (cases "get_loc (columns df) ''GAME''"; cases "tl (get_loc (columns df) ''GAME'')")
        (simp_all add: getitem_def)
    then obtain it where "getitem df ''GAME'' = Inr it"
      by blast
    then show ?thesis
      by (cases it) (simp_all add: col_nunique_def)
  qed
  then obtain u where u: "(if ''GAME'' \<in> set (columns df) then col_nunique df ''GAME'' else Inr (Scalar 0)) = Inr u"
    by (cases "''GAME'' \<in> set (columns df)") auto
  show ?thesis
    by (cases "rows df = []") (simp_all add: show_summary_metrics_def s a u Let_def)
qed

text \<open>
  C10. The rows whose \<^verbatim>\<open>GAME\<close> cell is missing take no part in the top-games rollup:
  no entry has a missing title, and the rollup is the one of the table without these
  rows. They do count in the summary: the session count and the total hours of the
  table are those of the rows with a title plus those of the rows without.
\<close>

theorem top_games_skips_missing_titles:
  assumes "sorts argsort"
    and "get_loc (columns df) ''GAME'' = [j]"
    and "getitem df ''duration_hours'' = Inr (Series cs)"
    and "map_err to_float cs = Inr ds"
  shows "\<exists>out m mt mu.
           top_games argsort df = Inr out
         \<and> (\<forall>(g, s)\<in>set out. \<not> isna g)
         \<and> top_games argsort (df\<lparr>rows := filter (\<lambda>r. \<not> isna (r ! j)) (rows df)\<rparr>) = Inr out
         \<and> show_summary_metrics df = Inr m
         \<and> show_summary_metrics (df\<lparr>rows := filter (\<lambda>r. \<not> isna (r ! j)) (rows df)\<rparr>) = Inr mt
         \<and> show_summary_metrics (df\<lparr>rows := filter (\<lambda>r. isna (r ! j)) (rows df)\<rparr>) = Inr mu
         \<and> total_sessions m = total_sessions mt + total_sessions mu
         \<and> total_hours m = total_hours mt + total_hours mu"
proof -
  let ?T = "df\<lparr>rows := filter (\<lambda>r. \<not> isna (r ! j)) (rows df)\<rparr>"
  let ?U = "df\<lparr>rows := filter (\<lambda>r. isna (r ! j)) (rows df)\<rparr>"
  let ?gs = "map (\<lambda>r. r ! j) (rows df)"
  let ?out = "take 15 (sort_values_desc argsort
        (groupby_sum cell_key (filter (\<lambda>kv. \<not> isna (fst kv)) (zip ?gs ds))))"
  from assms(3) obtain i where i: "get_loc (columns df) ''duration_hours'' = [i]"
    and cs: "cs = map (\<lambda>r. r ! i) (rows df)"
    by (auto simp: getitem_Series_iff)
  have len: "length (rows df) = length ds"
    using map_err_length [OF assms(4)] by (simp add: cs)
  have g: "getitem df ''GAME'' = Inr (Series ?gs)"
    by (simp add: getitem_def assms(2))
  have ret: "top_games argsort df = Inr ?out"
    by (rule top_games_eq [OF g assms(3,4)])
  have titled: "\<forall>(g, s)\<in>set ?out. \<not> isna g"
    using top_games_props(3) [OF assms(1), of ?gs ds] len by auto
  \<comment> \<open>the table of the rows with a title\<close>
  let ?dT = "map snd (filter (\<lambda>p. \<not> isna (fst p ! j)) (zip (rows df) ds))"
  have gT: "getitem ?T ''GAME'' = Inr (Series (map (\<lambda>r. r ! j) (filter (\<lambda>r. \<not> isna (r ! j)) (rows df))))"
    using getitem_filter_rows [OF assms(2)] .
  have cT: "getitem ?T ''duration_hours'' = Inr (Series (map (\<lambda>r. r ! i) (filter (\<lambda>r. \<not> isna (r ! j)) (rows df))))"
    using getitem_filter_rows [OF i] .
  have fT: "map_err to_float (map (\<lambda>r. r ! i) (filter (\<lambda>r. \<not> isna (r ! j)) (rows df))) = Inr ?dT"
    using map_err_filter [of to_float "\<lambda>r. r ! i" "rows df" ds "\<lambda>r. \<not> isna (r ! j)"] assms(4)
    by (simp add: cs)
  have retT: "top_games argsort ?T = Inr ?out"
    unfolding top_games_eq [OF gT cT fT]
    using titled_pairs [OF len, of "\<lambda>r. r ! j"] by simp
  \<comment> \<open>the table of the rows without\<close>
  let ?dU = "map snd (filter (\<lambda>p. isna (fst p ! j)) (zip (rows df) ds))"
  have cU: "getitem ?U ''duration_hours'' = Inr (Series (map (\<lambda>r. r ! i) (filter (\<lambda>r. isna (r ! j)) (rows df))))"
    using getitem_filter_rows [OF i] .
  have fU: "map_err to_float (map (\<lambda>r. r ! i) (filter (\<lambda>r. isna (r ! j)) (rows df))) = Inr ?dU"
    using map_err_filter [of to_float "\<lambda>r. r ! i" "rows df" ds "\<lambda>r. isna (r ! j)"] assms(4)
    by (simp add: cs)
  from metrics_of [OF assms(3,4)] obtain m where
    m: "show_summary_metrics df = Inr m" "total_hours m = nansum ds" "total_sessions m = length (rows df)"
    by blast
  from metrics_of [OF cT fT] obtain mt where
    mt: "show_summary_metrics ?T = Inr mt" "total_hours mt = nansum ?dT"
      "total_sessions mt = length (filter (\<lambda>r. \<not> isna (r ! j)) (rows df))"
    by auto
  from metrics_of [OF cU fU] obtain mu where
    mu: "show_summary_metrics ?U = Inr mu" "total_hours mu = nansum ?dU"
      "total_sessions mu = length (filter (\<lambda>r. isna (r ! j)) (rows df))"
    by auto
  have "ds = map snd (zip (rows df) ds)"
    using len by simp
  then have "nansum ds = nansum (map snd (zip (rows df) ds))"
    by simp
  also have "\<dots> = nansum ?dT + nansum ?dU"
    using nansum_split [of "zip (rows df) ds" "\<lambda>p. \<not> isna (fst p ! j)"] by simp
  finally have hours: "total_hours m = total_hours mt + total_hours mu"
    by (simp add: m mt mu)
  have sessions: "total_sessions m = total_sessions mt + total_sessions mu"
    using sum_length_filter_compl [of "\<lambda>r. \<not> isna (r ! j)" "rows df"] by (simp add: m mt mu)
  show ?thesis
    apply (rule exI [of _ ?out])
    apply (rule exI [of _ m])
    apply (rule exI [of _ mt])
    apply (rule exI [of _ mu])
    apply (intro conjI)
           apply (rule ret)
          apply (rule titled)
         apply (rule retT)
        apply (rule m(1))
       apply (rule mt(1))
      apply (rule mu(1))
     apply (rule sessions)
    apply (rule hours)
    done
qed

theorem top_games_skips_missing_titles_witness:
  "sorts insertion_argsort
   \<and> get_loc (columns untitled_rows) ''GAME'' = [0]
   \<and> getitem untitled_rows ''duration_hours'' = Inr (Series [CFloat 1, CFloat 5, CFloat 3])
   \<and> map_err to_float [CFloat 1, CFloat 5, CFloat 3] = Inr [Some 1, Some 5, Some 3]
   \<and> top_games insertion_argsort untitled_rows = Inr [(CStr ''Doom'', 3), (CStr ''Zelda'', 1)]
   \<and> top_games insertion_argsort (untitled_rows\<lparr>rows := filter (\<lambda>r. \<not> isna (r ! 0)) (rows untitled_rows)\<rparr>)
       = Inr [(CStr ''Doom'', 3), (CStr ''Zelda'', 1)]
   \<and> (\<exists>m. show_summary_metrics untitled_rows = Inr m \<and> total_sessions m = 3 \<and> total_hours m = 9)
   \<and> (\<exists>mt. show_summary_metrics (untitled_rows\<lparr>rows := filter (\<lambda>r. \<not> isna (r ! 0)) (rows untitled_rows)\<rparr>) = Inr mt
          \<and> total_sessions mt = 2 \<and> total_hours mt = 4)
   \<and> (\<exists>mu. show_summary_metrics (untitled_rows\<lparr>rows := filter (\<lambda>r. isna (r ! 0)) (rows untitled_rows)\<rparr>) = Inr mu
          \<and> total_sessions mu = 1 \<and> total_hours mu = 5)"
proof -
  have j: "get_loc (columns untitled_rows) ''GAME'' = [0]"
    by code_simp
  have c: "getitem untitled_rows ''duration_hours'' = Inr (Series [CFloat 1, CFloat 5, CFloat 3])"
    by code_simp
  have d: "map_err to_float [CFloat 1, CFloat 5, CFloat 3] = Inr [Some 1, Some 5, Some 3]"
    by simp
  have t: "top_games insertion_argsort untitled_rows = Inr [(CStr ''Doom'', 3), (CStr ''Zelda'', 1)]"
    by code_simp
  have m: "show_summary_metrics untitled_rows
      = Inr \<lparr>total_hours = 9, total_sessions = 3, unique_games = Scalar 2, avg_session = Some 3\<rparr>"
    by code_simp
  have mt: "show_summary_metrics (untitled_rows\<lparr>rows := filter (\<lambda>r. \<not> isna (r ! 0)) (rows untitled_rows)\<rparr>)
      = Inr \<lparr>total_hours = 4, total_sessions = 2, unique_games = Scalar 2, avg_session = Some 2\<rparr>"
    by code_simp
  have mu: "show_summary_metrics (untitled_rows\<lparr>rows := filter (\<lambda>r. isna (r ! 0)) (rows untitled_rows)\<rparr>)
      = Inr \<lparr>total_hours = 5, total_sessions = 1, unique_games = Scalar 0, avg_session = Some 5\<rparr>"
    by code_simp
  from top_games_skips_missing_titles [OF sorts_insertion_argsort j c d] t
  have same: "top_games insertion_argsort (untitled_rows\<lparr>rows := filter (\<lambda>r. \<not> isna (r ! 0)) (rows untitled_rows)\<rparr>)
       = Inr [(CStr ''Doom'', 3), (CStr ''Zelda'', 1)]"
    by auto
  from sorts_insertion_argsort j c d t same m mt mu show ?thesis
    by simp
qed

end
